theory Spec2Isabelle
  imports Complex_Main "HOL-Library.Sublist" "HOL-Library.Log_Nat"
begin

section \<open>Values of the language\<close>

text \<open>
  The handlers read numeric hourly series out of parsed JSON. An entry of such a series is
  a number or \<open>null\<close>; reading past the end of an array gives \<open>undefined\<close>. A number
  is a finite value, \<open>NaN\<close> or one of the two infinities. A finite number is written as a
  rational: a decimal, in the tables of the source or in the data, stands for the double
  nearest to it. Comparisons are made on the numbers as written; arithmetic is that of
  double precision, on the doubles the operands stand for, each result rounded to the
  nearest double. The sign of zero is not modelled.
\<close>

datatype jsnum = Fin rat | NaN | PosInf | NegInf

datatype jsval = Num jsnum | Null | Undefined

text \<open>\<^verbatim>\<open>Number.isFinite(v)\<close>: true for a finite number only, with no coercion.\<close>

fun isFinite :: "jsval \<Rightarrow> bool" where
  "isFinite (Num (Fin x)) = True"
| "isFinite v = False"

text \<open>\<open>ToNumber\<close>, as the relational operators apply it: \<open>null\<close> is 0 and
  \<open>undefined\<close> is \<open>NaN\<close>.\<close>

fun toNumber :: "jsval \<Rightarrow> jsnum" where
  "toNumber (Num n) = n"
| "toNumber Null = Fin 0"
| "toNumber Undefined = NaN"

text \<open>\<^verbatim>\<open>a >= c\<close> and \<^verbatim>\<open>a <= c\<close> against a finite literal \<open>c\<close>: every comparison
  with \<open>NaN\<close> is false.\<close>

fun num_ge :: "jsnum \<Rightarrow> rat \<Rightarrow> bool" where
  "num_ge (Fin x) c = (c \<le> x)"
| "num_ge NaN c = False"
| "num_ge PosInf c = True"
| "num_ge NegInf c = False"

fun num_le :: "jsnum \<Rightarrow> rat \<Rightarrow> bool" where
  "num_le (Fin x) c = (x \<le> c)"
| "num_le NaN c = False"
| "num_le PosInf c = False"
| "num_le NegInf c = True"

definition js_ge :: "jsval \<Rightarrow> rat \<Rightarrow> bool" where
  "js_ge v c = num_ge (toNumber v) c"

definition js_le :: "jsval \<Rightarrow> rat \<Rightarrow> bool" where
  "js_le v c = num_le (toNumber v) c"

section \<open>Double precision arithmetic\<close>

text \<open>Rounding to the nearest integer, a tie going to the even one.\<close>

definition rne :: "rat \<Rightarrow> int" where
  "rne z =
     (let f = \<lfloor>z\<rfloor>; r = z - of_int f
      in if r < 1 / 2 then f else if 1 / 2 < r then f + 1 else if even f then f else f + 1)"

text \<open>The binary exponent of a positive number \<open>x\<close>: the \<open>e\<close> with \<open>2\<^sup>e \<le> x < 2\<^sup>e\<^sup>+\<^sup>1\<close>,
  from the bit lengths of numerator and denominator.\<close>

definition ilog2 :: "rat \<Rightarrow> int" where
  "ilog2 x =
     (case quotient_of x of (p, q) \<Rightarrow>
        let e = bitlen p - bitlen q in if 2 powi e \<le> x then e else e - 1)"

text \<open>The distance between neighbouring doubles around \<open>x\<close>: 52 fraction bits below the
  exponent, which does not go below that of the subnormal numbers.\<close>

definition quantum :: "rat \<Rightarrow> rat" where
  "quantum x = 2 powi (max (ilog2 \<bar>x\<bar>) (- 1022) - 52)"

text \<open>The multiple of the quantum nearest to \<open>x\<close>, a tie going to the even multiple.\<close>

definition binary64 :: "rat \<Rightarrow> rat" where
  "binary64 x = (if x = 0 then 0 else of_int (rne (x / quantum x)) * quantum x)"

text \<open>The double a real result is rounded to: an infinity when the rounded magnitude
  reaches \<open>2\<^sup>1\<^sup>0\<^sup>2\<^sup>4\<close>.\<close>

definition to_double :: "rat \<Rightarrow> jsnum" where
  "to_double x =
     (let y = binary64 x
      in if 2 ^ 1024 \<le> y then PosInf else if y \<le> - (2 ^ 1024) then NegInf else Fin y)"

text \<open>The double that a number as written stands for.\<close>

fun as_double :: "jsnum \<Rightarrow> jsnum" where
  "as_double (Fin x) = to_double x"
| "as_double n = n"

text \<open>The operators \<^verbatim>\<open>+\<close>, \<^verbatim>\<open>-\<close>, \<^verbatim>\<open>*\<close> and \<^verbatim>\<open>/\<close> on doubles.\<close>

fun js_neg :: "jsnum \<Rightarrow> jsnum" where
  "js_neg (Fin x) = Fin (- x)"
| "js_neg NaN = NaN"
| "js_neg PosInf = NegInf"
| "js_neg NegInf = PosInf"

fun js_add :: "jsnum \<Rightarrow> jsnum \<Rightarrow> jsnum" where
  "js_add (Fin x) (Fin y) = to_double (x + y)"
| "js_add NaN b = NaN"
| "js_add a NaN = NaN"
| "js_add PosInf NegInf = NaN"
| "js_add NegInf PosInf = NaN"
| "js_add PosInf b = PosInf"
| "js_add a PosInf = PosInf"
| "js_add NegInf b = NegInf"
| "js_add a NegInf = NegInf"

definition js_sub :: "jsnum \<Rightarrow> jsnum \<Rightarrow> jsnum" where
  "js_sub a b = js_add a (js_neg b)"

fun js_mul :: "jsnum \<Rightarrow> jsnum \<Rightarrow> jsnum" where
  "js_mul (Fin x) (Fin y) = to_double (x * y)"
| "js_mul NaN b = NaN"
| "js_mul a NaN = NaN"
| "js_mul PosInf (Fin y) = (if 0 < y then PosInf else if y < 0 then NegInf else NaN)"
| "js_mul NegInf (Fin y) = (if 0 < y then NegInf else if y < 0 then PosInf else NaN)"
| "js_mul (Fin x) PosInf = (if 0 < x then PosInf else if x < 0 then NegInf else NaN)"
| "js_mul (Fin x) NegInf = (if 0 < x then NegInf else if x < 0 then PosInf else NaN)"
| "js_mul PosInf PosInf = PosInf"
| "js_mul PosInf NegInf = NegInf"
| "js_mul NegInf PosInf = NegInf"
| "js_mul NegInf NegInf = PosInf"

fun js_div :: "jsnum \<Rightarrow> jsnum \<Rightarrow> jsnum" where
  "js_div (Fin x) (Fin y) =
     (if y = 0 then (if x = 0 then NaN else if 0 < x then PosInf else NegInf)
      else to_double (x / y))"
| "js_div NaN b = NaN"
| "js_div a NaN = NaN"
| "js_div (Fin x) PosInf = Fin 0"
| "js_div (Fin x) NegInf = Fin 0"
| "js_div PosInf (Fin y) = (if 0 \<le> y then PosInf else NegInf)"
| "js_div NegInf (Fin y) = (if 0 \<le> y then NegInf else PosInf)"
| "js_div PosInf b = NaN"
| "js_div NegInf b = NaN"

text \<open>\<^verbatim>\<open>Math.round\<close>: the nearest integer, a half rounded up; \<open>NaN\<close> and the infinities
  are kept.\<close>

definition math_round :: "rat \<Rightarrow> int" where
  "math_round x = \<lfloor>x + 1 / 2\<rfloor>"

fun js_round :: "jsnum \<Rightarrow> jsnum" where
  "js_round (Fin x) = Fin (of_int (math_round x))"
| "js_round n = n"

section \<open>The verdict engine\<close>

text \<open>The three icons the source writes as emoji: a red, a yellow and a green circle.\<close>

datatype icon = Red | Yellow | Green

record verdict =
  icon :: icon
  text_str :: string

text \<open>The object \<^verbatim>\<open>{ tempC, rh, windKmh, aqi }\<close> that \<^verbatim>\<open>verdictForAsthma\<close> destructures.\<close>

record reading =
  tempC :: jsval
  rh :: jsval
  windKmh :: jsval
  aqi :: jsval

text \<open>\<^verbatim>\<open>verdictForAsthma\<close> of \<^verbatim>\<open>api/run-verdict.js\<close> (the same text stands in two
  of the other handler files): every comparison is guarded by \<^verbatim>\<open>Number.isFinite\<close>.\<close>

definition verdictForAsthma :: "reading \<Rightarrow> verdict" where
  "verdictForAsthma r =
     (if isFinite (aqi r) \<and> js_ge (aqi r) 101 then \<lparr>icon = Red, text_str = ''Indoor only''\<rparr>
      else if isFinite (aqi r) \<and> js_ge (aqi r) 51 then
        (if isFinite (tempC r) \<and> js_ge (tempC r) 32 then \<lparr>icon = Red, text_str = ''Indoor only''\<rparr>
         else \<lparr>icon = Yellow, text_str = ''Caution''\<rparr>)
      else if isFinite (tempC r) \<and> js_ge (tempC r) 32 then \<lparr>icon = Red, text_str = ''Indoor only''\<rparr>
      else if (isFinite (tempC r) \<and> js_ge (tempC r) 28) \<or> (isFinite (rh r) \<and> js_ge (rh r) 75)
        then \<lparr>icon = Yellow, text_str = ''Caution''\<rparr>
      else \<lparr>icon = Green, text_str = ''Safe to run''\<rparr>)"

text \<open>The older \<^verbatim>\<open>verdictForAsthma\<close> of the two handler files that read the index
  straight from the series: the same table with bare \<^verbatim>\<open>>=\<close> comparisons.\<close>

definition verdictForAsthma_bare :: "reading \<Rightarrow> verdict" where
  "verdictForAsthma_bare r =
     (if js_ge (aqi r) 101 then \<lparr>icon = Red, text_str = ''Indoor only''\<rparr>
      else if js_ge (aqi r) 51 then
        (if js_ge (tempC r) 32 then \<lparr>icon = Red, text_str = ''Indoor only''\<rparr>
         else \<lparr>icon = Yellow, text_str = ''Caution''\<rparr>)
      else if js_ge (tempC r) 32 then \<lparr>icon = Red, text_str = ''Indoor only''\<rparr>
      else if js_ge (tempC r) 28 \<or> js_ge (rh r) 75
        then \<lparr>icon = Yellow, text_str = ''Caution''\<rparr>
      else \<lparr>icon = Green, text_str = ''Safe to run''\<rparr>)"

section \<open>The index calculator\<close>

text \<open>A row \<^verbatim>\<open>[C_low, C_high, I_low, I_high]\<close> of a breakpoint table.\<close>

type_synonym breakpoint = "rat \<times> rat \<times> rat \<times> rat"

text \<open>The two tables of \<^verbatim>\<open>usAqiFromConcentration\<close>, with the decimal literals as exact
  fractions.\<close>

definition PM25 :: "breakpoint list" where
  "PM25 =
     [(0, 12, 0, 50),
      (121 / 10, 354 / 10, 51, 100),
      (355 / 10, 554 / 10, 101, 150),
      (555 / 10, 1504 / 10, 151, 200),
      (1505 / 10, 2504 / 10, 201, 300),
      (2505 / 10, 3504 / 10, 301, 400),
      (3505 / 10, 5004 / 10, 401, 500)]"

definition PM10 :: "breakpoint list" where
  "PM10 =
     [(0, 54, 0, 50),
      (55, 154, 51, 100),
      (155, 254, 101, 150),
      (255, 354, 151, 200),
      (355, 424, 201, 300),
      (425, 504, 301, 400),
      (505, 604, 401, 500)]"

text \<open>The body of the loop for a row that holds the concentration:
  \<^verbatim>\<open>Math.round(((Ih - Il) / (Ch - Cl)) * (conc - Cl) + Il)\<close>, every operation in double
  precision.\<close>

definition interpolate :: "breakpoint \<Rightarrow> rat \<Rightarrow> jsval" where
  "interpolate b conc =
     (case b of (Cl, Ch, Il, Ih) \<Rightarrow>
        Num (js_round
          (js_add
            (js_mul
              (js_div (js_sub (to_double Ih) (to_double Il)) (js_sub (to_double Ch) (to_double Cl)))
              (js_sub (to_double conc) (to_double Cl)))
            (to_double Il))))"

text \<open>The \<^verbatim>\<open>for ... of table\<close> loop: the first row that holds the concentration decides,
  and 500 is returned when the loop ends without one.\<close>

fun scan_table :: "rat \<Rightarrow> breakpoint list \<Rightarrow> jsval" where
  "scan_table conc [] = Num (Fin 500)"
| "scan_table conc ((Cl, Ch, Il, Ih) # rest) =
     (if Cl \<le> conc \<and> conc \<le> Ch then interpolate (Cl, Ch, Il, Ih) conc
      else scan_table conc rest)"

text \<open>\<^verbatim>\<open>const table = pollutant === "pm10" ? PM10 : PM25\<close>.\<close>

definition table_for :: "string \<Rightarrow> breakpoint list" where
  "table_for pollutant = (if pollutant = ''pm10'' then PM10 else PM25)"

text \<open>\<^verbatim>\<open>usAqiFromConcentration(conc, pollutant)\<close>: \<open>null\<close> unless the concentration is
  a finite number.\<close>

definition usAqiFromConcentration :: "jsval \<Rightarrow> string \<Rightarrow> jsval" where
  "usAqiFromConcentration conc pollutant =
     (case conc of
        Num (Fin c) \<Rightarrow> scan_table c (table_for pollutant)
      | _ \<Rightarrow> Null)"

section \<open>The category of an index\<close>

text \<open>\<^verbatim>\<open>aqiCategoryFromNumber\<close> of \<^verbatim>\<open>api/run-verdict.js\<close>.\<close>

definition aqiCategoryFromNumber :: "jsval \<Rightarrow> string" where
  "aqiCategoryFromNumber aqiVal =
     (if \<not> isFinite aqiVal then ''Unknown''
      else if js_le aqiVal 50 then ''Good''
      else if js_le aqiVal 100 then ''Moderate''
      else if js_le aqiVal 150 then ''Unhealthy for Sensitive Groups''
      else if js_le aqiVal 200 then ''Unhealthy''
      else if js_le aqiVal 300 then ''Very Unhealthy''
      else ''Hazardous'')"

text \<open>A category label that comes with the data is a string, or is absent (\<open>null\<close> or
  \<open>undefined\<close>). \<^verbatim>\<open>if (catStr)\<close> is the truthiness test: an absent label and the empty
  string fail it.\<close>

fun truthy :: "string option \<Rightarrow> bool" where
  "truthy None = False"
| "truthy (Some s) = (s \<noteq> [])"

text \<open>\<^verbatim>\<open>aqiCategory(catStr, aqiVal)\<close> of the handler that asks for the health concern
  labels: a label that passes the test is returned as it is.\<close>

definition aqiCategory :: "string option \<Rightarrow> jsval \<Rightarrow> string" where
  "aqiCategory catStr aqiVal =
     (case catStr of
        Some s \<Rightarrow> if truthy (Some s) then s else aqiCategoryFromNumber aqiVal
      | None \<Rightarrow> aqiCategoryFromNumber aqiVal)"

section \<open>The nearest hour with an index\<close>

text \<open>The \<^verbatim>\<open>hourly\<close> object of a parsed response: each series is an array, or missing.
  The weather and the air quality responses have the same shape with different series.\<close>

record hourly =
  time :: "string list option"
  temperature_2m :: "jsval list option"
  relative_humidity_2m :: "jsval list option"
  wind_speed_10m :: "jsval list option"
  us_aqi :: "jsval list option"
  pm2_5 :: "jsval list option"
  pm10 :: "jsval list option"
  epa_health_concern :: "string option list option"

text \<open>A parsed body: its \<^verbatim>\<open>hourly\<close> property, if it has one.\<close>

type_synonym json = "hourly option"

text \<open>\<^verbatim>\<open>json?.hourly?.field || []\<close>.\<close>

definition array_of :: "json \<Rightarrow> (hourly \<Rightarrow> 'a list option) \<Rightarrow> 'a list" where
  "array_of j field = (case j of None \<Rightarrow> [] | Some h \<Rightarrow> (case field h of None \<Rightarrow> [] | Some xs \<Rightarrow> xs))"

text \<open>\<^verbatim>\<open>arr[i]\<close>: \<open>undefined\<close> out of range.\<close>

definition at_index :: "jsval list \<Rightarrow> int \<Rightarrow> jsval" where
  "at_index arr i = (if 0 \<le> i \<and> i < int (length arr) then arr ! nat i else Undefined)"

definition label_at :: "string option list \<Rightarrow> int \<Rightarrow> string option" where
  "label_at arr i = (if 0 \<le> i \<and> i < int (length arr) then arr ! nat i else None)"

text \<open>\<^verbatim>\<open>Array.prototype.findIndex\<close>: the first position whose entry passes, or -1.\<close>

fun findIndex_from :: "('a \<Rightarrow> bool) \<Rightarrow> 'a list \<Rightarrow> int \<Rightarrow> int" where
  "findIndex_from P [] k = - 1"
| "findIndex_from P (x # xs) k = (if P x then k else findIndex_from P xs (k + 1))"

definition findIndex :: "('a \<Rightarrow> bool) \<Rightarrow> 'a list \<Rightarrow> int" where
  "findIndex P xs = findIndex_from P xs 0"

text \<open>\<^verbatim>\<open>t.startsWith(target)\<close>.\<close>

definition startsWith :: "string \<Rightarrow> string \<Rightarrow> bool" where
  "startsWith t target = prefix target t"

text \<open>\<^verbatim>\<open>const hasVal = i => i >= 0 && i < aqiArr.length && Number.isFinite(aqiArr[i])\<close>.\<close>

definition hasVal :: "jsval list \<Rightarrow> int \<Rightarrow> bool" where
  "hasVal aqiArr i = (i \<ge> 0 \<and> i < int (length aqiArr) \<and> isFinite (at_index aqiArr i))"

text \<open>The two \<^verbatim>\<open>for\<close> loops of \<^verbatim>\<open>findNearestAqi\<close>, each returning the index at which it
  returns, or \<open>None\<close> when it runs to its end: \<^verbatim>\<open>for (let i = exactIdx - 1; i >= 0; i--)\<close>
  and \<^verbatim>\<open>for (let i = Math.max(exactIdx + 1, 0); i < times.length; i++)\<close>.\<close>

function backward :: "jsval list \<Rightarrow> int \<Rightarrow> int option" where
  "backward aqiArr i =
     (if i \<ge> 0 then (if hasVal aqiArr i then Some i else backward aqiArr (i - 1)) else None)"
  by pat_completeness auto
termination
  by (relation "measure (\<lambda>(aqiArr, i). nat (i + 1))") auto

function forward :: "jsval list \<Rightarrow> int \<Rightarrow> int \<Rightarrow> int option" where
  "forward aqiArr n i =
     (if i < n then (if hasVal aqiArr i then Some i else forward aqiArr n (i + 1)) else None)"
  by pat_completeness auto
termination
  by (relation "measure (\<lambda>(aqiArr, n, i). nat (n - i))") auto

text \<open>The object \<^verbatim>\<open>{ aqi, category }\<close> that \<^verbatim>\<open>findNearestAqi\<close> returns.\<close>

record nearest =
  n_aqi :: jsval
  n_category :: string

text \<open>\<^verbatim>\<open>findNearestAqi\<close> of \<^verbatim>\<open>api/run-verdict.js\<close>.\<close>

definition findNearestAqi :: "json \<Rightarrow> string \<Rightarrow> nearest" where
  "findNearestAqi aqJson targetISO =
     (let times = array_of aqJson time;
          aqiArr = array_of aqJson us_aqi;
          exactIdx = findIndex (\<lambda>t. startsWith t targetISO) times;
          found = (\<lambda>i. \<lparr>n_aqi = at_index aqiArr i,
                        n_category = aqiCategoryFromNumber (at_index aqiArr i)\<rparr>)
      in if hasVal aqiArr exactIdx then found exactIdx
         else case backward aqiArr (exactIdx - 1) of
           Some i \<Rightarrow> found i
         | None \<Rightarrow>
             (case forward aqiArr (int (length times)) (max (exactIdx + 1) 0) of
                Some i \<Rightarrow> found i
              | None \<Rightarrow> \<lparr>n_aqi = Null, n_category = ''Unknown''\<rparr>))"

text \<open>\<^verbatim>\<open>findNearestAqi\<close> of the handler that asks for the health concern labels: the
  same search, with the category taken from the label at the index found.\<close>

definition findNearestAqi_labelled :: "json \<Rightarrow> string \<Rightarrow> nearest" where
  "findNearestAqi_labelled aqJson targetISO =
     (let times = array_of aqJson time;
          aqiArr = array_of aqJson us_aqi;
          catArr = array_of aqJson epa_health_concern;
          exactIdx = findIndex (\<lambda>t. startsWith t targetISO) times;
          found = (\<lambda>i. \<lparr>n_aqi = at_index aqiArr i,
                        n_category = aqiCategory (label_at catArr i) (at_index aqiArr i)\<rparr>)
      in if hasVal aqiArr exactIdx then found exactIdx
         else case backward aqiArr (exactIdx - 1) of
           Some i \<Rightarrow> found i
         | None \<Rightarrow>
             (case forward aqiArr (int (length times)) (max (exactIdx + 1) 0) of
                Some i \<Rightarrow> found i
              | None \<Rightarrow> \<lparr>n_aqi = Null, n_category = ''Unknown''\<rparr>))"

declare backward.simps [simp del] forward.simps [simp del]

section \<open>The index from the particulate series\<close>

text \<open>The closure \<^verbatim>\<open>pickNearest\<close> of the handler that computes the index itself, with
  the \<^verbatim>\<open>jExact\<close> it captures as an argument: the search of \<^verbatim>\<open>findNearestAqi\<close> over one
  concentration array, returning the value or \<open>null\<close>.\<close>

definition pickNearest :: "int \<Rightarrow> jsval list \<Rightarrow> jsval" where
  "pickNearest jExact arr =
     (if hasVal arr jExact then at_index arr jExact
      else case backward arr (jExact - 1) of
        Some k \<Rightarrow> at_index arr k
      | None \<Rightarrow>
          (case forward arr (int (length arr)) (max (jExact + 1) 0) of
             Some k \<Rightarrow> at_index arr k
           | None \<Rightarrow> Null))"

text \<open>The same handler's choice of the index, from the two concentrations picked:
  \<^verbatim>\<open>const aqi = Number.isFinite(aqiFromPm25) ? aqiFromPm25 : aqiFromPm10\<close>.\<close>

definition aqiFromPm :: "jsval \<Rightarrow> jsval \<Rightarrow> jsval" where
  "aqiFromPm pm25_val pm10_val =
     (let aqiFromPm25 = usAqiFromConcentration pm25_val ''pm25'';
          aqiFromPm10 = usAqiFromConcentration pm10_val ''pm10''
      in if isFinite aqiFromPm25 then aqiFromPm25 else aqiFromPm10)"

section \<open>The handlers\<close>

text \<open>
  One invocation of a handler is a function of what its collaborators answer: the
  environment variable, the date the clock gives, the two upstream responses and the
  response of the notification service. A handler returns the reply it writes, together
  with the messages it has posted to the notification service.

  What a handler throws: the four \<^verbatim>\<open>new Error(...)\<close> of the source, and \<open>Thrown\<close> for
  anything else that lands in the \<^verbatim>\<open>catch\<close> (a rejected \<^verbatim>\<open>fetch\<close>, a body that is not
  JSON, a \<open>TypeError\<close> on a missing series).
\<close>

datatype error =
  MissingTopic
| WeatherFetchFailed nat
| AqFetchFailed nat
| NtfyPushFailed nat
| Thrown

text \<open>A response: \<^verbatim>\<open>ok\<close>, \<^verbatim>\<open>status\<close>, and what \<^verbatim>\<open>json()\<close> resolves to (\<open>None\<close> when it
  rejects).\<close>

record response =
  ok :: bool
  status :: nat
  body :: "json option"

text \<open>The collaborators' answers. \<open>ymd\<close> is the date in the form \<open>YYYY-MM-DD\<close>, as the
  \<open>en-CA\<close> date format gives it; each response is \<open>None\<close> when its \<^verbatim>\<open>fetch\<close> rejects.\<close>

record invocation =
  NTFY_TOPIC :: "string option"
  ymd :: string
  weather :: "response option"
  air :: "response option"
  ntfy :: "response option"

text \<open>\<^verbatim>\<open>fmt(n, 0)\<close>: the text \<open>NA\<close>, or the number to print with no decimals.\<close>

datatype shown = NA | Fixed rat

fun fmt :: "jsval \<Rightarrow> shown" where
  "fmt (Num (Fin x)) = Fixed x"
| "fmt v = NA"

text \<open>The line a handler posts, as the values its template interpolates. The category is
  there when the template prints it: for a finite index, in the handlers that have one.\<close>

record message =
  m_verdict :: verdict
  m_tempC :: shown
  m_rh :: shown
  m_windKmh :: shown
  m_aqi :: shown
  m_aqiCat :: "string option"

text \<open>The reply: status 200 with the line, or status 500 with the error.\<close>

datatype reply = Sent message | Failed error

type_synonym run = "reply \<times> message list"

text \<open>\<^verbatim>\<open>i >= 0 ? json.hourly.field[i] : null\<close>: the read throws when the body has no
  \<^verbatim>\<open>hourly\<close> or no such series.\<close>

definition series_at :: "json \<Rightarrow> (hourly \<Rightarrow> jsval list option) \<Rightarrow> int \<Rightarrow> error + jsval" where
  "series_at j field i =
     (if i \<ge> 0 then
        (case j of
           None \<Rightarrow> Inl Thrown
         | Some h \<Rightarrow> (case field h of None \<Rightarrow> Inl Thrown | Some arr \<Rightarrow> Inr (at_index arr i)))
      else Inr Null)"

text \<open>Sequencing inside the \<^verbatim>\<open>try\<close> block: an error ends the invocation with status 500
  and nothing posted so far.\<close>

fun attempt :: "error + 'a \<Rightarrow> ('a \<Rightarrow> run) \<Rightarrow> run" where
  "attempt (Inl e) k = (Failed e, [])"
| "attempt (Inr x) k = k x"

text \<open>\<^verbatim>\<open>await Promise.all([p, q])\<close>: it throws when one of the two promises rejects.\<close>

definition settled_both :: "'a option \<Rightarrow> 'b option \<Rightarrow> error + ('a \<times> 'b)" where
  "settled_both p q =
     (case p of None \<Rightarrow> Inl Thrown
      | Some x \<Rightarrow> (case q of None \<Rightarrow> Inl Thrown | Some y \<Rightarrow> Inr (x, y)))"

text \<open>The \<^verbatim>\<open>POST\<close> of the line and the check of its response.\<close>

definition push :: "invocation \<Rightarrow> message \<Rightarrow> run" where
  "push env line =
     (case ntfy env of
        None \<Rightarrow> (Failed Thrown, [line])
      | Some r \<Rightarrow> if \<not> ok r then (Failed (NtfyPushFailed (status r)), [line])
                 else (Sent line, [line]))"

text \<open>\<^verbatim>\<open>!topic\<close>: the variable is unset or empty.\<close>

definition topic_missing :: "invocation \<Rightarrow> bool" where
  "topic_missing env = (\<not> truthy (NTFY_TOPIC env))"

text \<open>\<^verbatim>\<open>handler\<close> of \<^verbatim>\<open>api/run-verdict.js\<close>.\<close>

definition handler :: "invocation \<Rightarrow> run" where
  "handler env =
     (if topic_missing env then (Failed MissingTopic, [])
      else
        let targetISO = ymd env @ ''T06:00'' in
        attempt (settled_both (weather env) (air env)) (\<lambda>(wRes, aqRes).
          if \<not> ok wRes then (Failed (WeatherFetchFailed (status wRes)), [])
          else if \<not> ok aqRes then (Failed (AqFetchFailed (status aqRes)), [])
          else
            attempt (settled_both (body wRes) (body aqRes)) (\<lambda>(wJson, aqJson).
              let times = array_of wJson time;
                  i = findIndex (\<lambda>t. startsWith t targetISO) times
              in
              attempt (series_at wJson temperature_2m i) (\<lambda>tempC.
              attempt (series_at wJson relative_humidity_2m i) (\<lambda>rh.
              attempt (series_at wJson wind_speed_10m i) (\<lambda>windMs.
                let windKmh = (if isFinite windMs
                                 then Num (js_mul (as_double (toNumber windMs)) (to_double (36 / 10))) else Null);
                    found = findNearestAqi aqJson targetISO;
                    aqi = n_aqi found;
                    aqiCat = n_category found;
                    verdict = verdictForAsthma
                      \<lparr>tempC = tempC, rh = rh, windKmh = windKmh, aqi = aqi\<rparr>;
                    line = \<lparr>m_verdict = verdict, m_tempC = fmt tempC, m_rh = fmt rh,
                             m_windKmh = fmt windKmh, m_aqi = fmt aqi,
                             m_aqiCat = (if isFinite aqi then Some aqiCat else None)\<rparr>
                in push env line))))))"

text \<open>\<^verbatim>\<open>handler\<close> of the oldest handler file: no check of \<^verbatim>\<open>ok\<close> on the upstream
  responses, the index read straight at the target hour, the bare verdict, and the topic
  checked only before the post.\<close>

definition handler_unchecked :: "invocation \<Rightarrow> run" where
  "handler_unchecked env =
     (let targetISO = ymd env @ ''T06:00'' in
      attempt (settled_both (weather env) (air env)) (\<lambda>(wRes, aqRes).
        attempt (settled_both (body wRes) (body aqRes)) (\<lambda>(wJson, aqJson).
          let wTime = array_of wJson time;
              idx = findIndex (\<lambda>t. startsWith t targetISO) wTime
          in
          attempt (series_at wJson temperature_2m idx) (\<lambda>tempC.
          attempt (series_at wJson relative_humidity_2m idx) (\<lambda>rh.
          attempt (series_at wJson wind_speed_10m idx) (\<lambda>windMs.
            let windKmh = (if windMs \<noteq> Null \<and> windMs \<noteq> Undefined
                             then Num (js_mul (as_double (toNumber windMs)) (to_double (36 / 10))) else Null);
                aqTime = array_of aqJson time;
                aqIdx = findIndex (\<lambda>t. startsWith t targetISO) aqTime
            in
            attempt (series_at aqJson us_aqi aqIdx) (\<lambda>aqi.
            attempt (series_at aqJson pm2_5 aqIdx) (\<lambda>pm25_val.
            attempt (series_at aqJson pm10 aqIdx) (\<lambda>pm10_val.
              let v = verdictForAsthma_bare
                    \<lparr>tempC = tempC, rh = rh, windKmh = windKmh, aqi = aqi\<rparr>;
                  line = \<lparr>m_verdict = v, m_tempC = fmt tempC, m_rh = fmt rh,
                           m_windKmh = fmt windKmh, m_aqi = fmt aqi, m_aqiCat = None\<rparr>
              in if topic_missing env then (Failed MissingTopic, [])
                 else push env line)))))))))"

section \<open>Notions used in the statements\<close>

text \<open>A value is present when it is a finite number. \<open>at_least v c\<close> says that \<open>v\<close> is
  present and not below \<open>c\<close>, \<open>at_most v c\<close> that it is present and not above \<open>c\<close>,
  \<open>below v c\<close> that it is present and strictly below \<open>c\<close>. All three are false of an
  absent value.\<close>

fun at_least :: "jsval \<Rightarrow> rat \<Rightarrow> bool" where
  "at_least (Num (Fin x)) c = (c \<le> x)"
| "at_least v c = False"

fun at_most :: "jsval \<Rightarrow> rat \<Rightarrow> bool" where
  "at_most (Num (Fin x)) c = (x \<le> c)"
| "at_most v c = False"

fun below :: "jsval \<Rightarrow> rat \<Rightarrow> bool" where
  "below (Num (Fin x)) c = (x < c)"
| "below v c = False"

definition red :: verdict where
  "red = \<lparr>icon = Red, text_str = ''Indoor only''\<rparr>"

definition yellow :: verdict where
  "yellow = \<lparr>icon = Yellow, text_str = ''Caution''\<rparr>"

definition green :: verdict where
  "green = \<lparr>icon = Green, text_str = ''Safe to run''\<rparr>"

text \<open>The fields of a row, and what it means for a concentration to fall inside it.\<close>

fun lo :: "breakpoint \<Rightarrow> rat" where "lo (Cl, Ch, Il, Ih) = Cl"

fun hi :: "breakpoint \<Rightarrow> rat" where "hi (Cl, Ch, Il, Ih) = Ch"

fun ilo :: "breakpoint \<Rightarrow> rat" where "ilo (Cl, Ch, Il, Ih) = Il"

fun ihi :: "breakpoint \<Rightarrow> rat" where "ihi (Cl, Ch, Il, Ih) = Ih"

definition inside :: "rat \<Rightarrow> breakpoint \<Rightarrow> bool" where
  "inside c b = (lo b \<le> c \<and> c \<le> hi b)"

text \<open>What the proofs need of a table: every row is at least 12 and at most 150 wide and
  lies within [0, 1000], its index bounds are whole numbers within [0, 500] at most 100
  apart, and the rows ascend without overlap.\<close>

definition row_ok :: "breakpoint \<Rightarrow> bool" where
  "row_ok b = (0 \<le> lo b \<and> lo b + 12 \<le> hi b \<and> hi b \<le> lo b + 150 \<and> hi b \<le> 1000 \<and>
     ilo b \<le> ihi b \<and> ihi b \<le> ilo b + 100 \<and> 0 \<le> ilo b \<and> ihi b \<le> 500 \<and>
     of_int \<lfloor>ilo b\<rfloor> = ilo b \<and> of_int \<lfloor>ihi b\<rfloor> = ihi b)"

fun ascending :: "breakpoint list \<Rightarrow> bool" where
  "ascending [] = True"
| "ascending (b # bs) =
     (row_ok b \<and> list_all (\<lambda>b'. hi b < lo b' \<and> ihi b \<le> ilo b') bs \<and> ascending bs)"

text \<open>The interpolated number before \<^verbatim>\<open>Math.round\<close>: as a real number, and as double
  precision arithmetic gives it for a row and a concentration of moderate size.\<close>

definition affine :: "breakpoint \<Rightarrow> rat \<Rightarrow> rat" where
  "affine b c = ((ihi b - ilo b) / (hi b - lo b)) * (c - lo b) + ilo b"

definition affine64 :: "breakpoint \<Rightarrow> rat \<Rightarrow> rat" where
  "affine64 b c =
     binary64
       (binary64
          (binary64 (binary64 (binary64 (ihi b) - binary64 (ilo b))
             / binary64 (binary64 (hi b) - binary64 (lo b)))
           * binary64 (binary64 c - binary64 (lo b)))
        + binary64 (ilo b))"

text \<open>A bound on the rounding error of a number of size at most 2048.\<close>

definition delta :: rat where
  "delta = 1 / 2 ^ 42"

text \<open>The number a finite result holds.\<close>

fun fin_of :: "jsval \<Rightarrow> rat" where
  "fin_of (Num (Fin x)) = x"
| "fin_of v = 0"

text \<open>
  The resolver as the specification words it. A value is usable when it is present and
  finite. The target position is that of the first timestamp starting with the target
  prefix. The value at the target position is taken if usable; otherwise the first usable
  value met going backward from the target position to the start; otherwise the first
  usable value met going forward from the position after the target to the end. Without a
  target position the whole series is searched from its start.
\<close>

definition usable :: "jsval \<Rightarrow> bool" where
  "usable v = isFinite v"

definition target_position_spec :: "string list \<Rightarrow> string \<Rightarrow> nat option" where
  "target_position_spec ts target =
     (if list_ex (prefix target) ts
      then Some (length (takeWhile (\<lambda>t. \<not> prefix target t) ts)) else None)"

definition nearest_value_spec :: "string list \<Rightarrow> jsval list \<Rightarrow> string \<Rightarrow> jsval option" where
  "nearest_value_spec ts aqis target =
     (case target_position_spec ts target of
        Some k \<Rightarrow>
          if k < length aqis \<and> usable (aqis ! k) then Some (aqis ! k)
          else (case find usable (rev (take k aqis)) of
                  Some v \<Rightarrow> Some v
                | None \<Rightarrow> find usable (drop (Suc k) aqis))
      | None \<Rightarrow> find usable aqis)"

text \<open>The search that both variants of \<^verbatim>\<open>findNearestAqi\<close> run, as the index found.\<close>

definition nearest_index :: "string list \<Rightarrow> jsval list \<Rightarrow> string \<Rightarrow> int option" where
  "nearest_index ts aqiArr targetISO =
     (let exactIdx = findIndex (\<lambda>t. startsWith t targetISO) ts
      in if hasVal aqiArr exactIdx then Some exactIdx
         else case backward aqiArr (exactIdx - 1) of
           Some i \<Rightarrow> Some i
         | None \<Rightarrow> forward aqiArr (int (length ts)) (max (exactIdx + 1) 0))"

text \<open>A body with a timestamp array and an index array only.\<close>

definition series :: "string list \<Rightarrow> jsval list \<Rightarrow> json" where
  "series ts vs = Some \<lparr>time = Some ts, temperature_2m = None, relative_humidity_2m = None,
     wind_speed_10m = None, us_aqi = Some vs, pm2_5 = None, pm10 = None,
     epa_health_concern = None\<rparr>"

text \<open>An invocation whose weather response is a server error with a JSON error body, the
  air quality response being fine.\<close>

definition weather_down :: invocation where
  "weather_down =
     \<lparr>NTFY_TOPIC = Some ''morning-run'', ymd = ''2024-05-01'',
      weather = Some \<lparr>ok = False, status = 500, body = Some None\<rparr>,
      air = Some \<lparr>ok = True, status = 200, body = Some (Some
        \<lparr>time = Some [''2024-05-01T05:00'', ''2024-05-01T06:00''],
         temperature_2m = None, relative_humidity_2m = None, wind_speed_10m = None,
         us_aqi = Some [Num (Fin 38), Num (Fin 40)],
         pm2_5 = Some [Num (Fin 9), Num (Fin (95 / 10))],
         pm10 = Some [Num (Fin 20), Num (Fin 21)],
         epa_health_concern = None\<rparr>)\<rparr>,
      ntfy = Some \<lparr>ok = True, status = 200, body = None\<rparr>\<rparr>"

section \<open>Properties of the verdict engine\<close>

lemma guarded_ge: "(isFinite v \<and> js_ge v c) = at_least v c"
  by (cases "(v, c)" rule: at_least.cases) (simp_all add: js_ge_def)

lemma verdictForAsthma_table:
  "verdictForAsthma r =
     (if at_least (aqi r) 101 then red
      else if at_least (aqi r) 51 then (if at_least (tempC r) 32 then red else yellow)
      else if at_least (tempC r) 32 then red
      else if at_least (tempC r) 28 \<or> at_least (rh r) 75 then yellow
      else green)"
  unfolding verdictForAsthma_def guarded_ge red_def yellow_def green_def ..

lemma at_most_not_at_least: "at_most v c \<Longrightarrow> c < d \<Longrightarrow> \<not> at_least v d"
  by (cases "(v, c)" rule: at_least.cases) simp_all

lemma absent_or_below: "\<not> isFinite v \<or> below v c \<Longrightarrow> \<not> at_least v c"
  by (cases "(v, c)" rule: at_least.cases) simp_all

lemma absent_not_at_least: "\<not> isFinite v \<Longrightarrow> \<not> at_least v c"
  by (cases "(v, c)" rule: at_least.cases) simp_all

text \<open>The bare variant differs from the guarded one only where an input is \<open>+Infinity\<close>,
  which the bare comparison accepts and the guard rejects.\<close>

lemma bare_ge: "toNumber v \<noteq> PosInf \<Longrightarrow> 0 < c \<Longrightarrow> js_ge v c = at_least v c"
  by (cases v; cases "toNumber v") (auto simp: js_ge_def)

lemma verdictForAsthma_bare_agrees:
  assumes "toNumber (aqi r) \<noteq> PosInf" "toNumber (tempC r) \<noteq> PosInf" "toNumber (rh r) \<noteq> PosInf"
  shows "verdictForAsthma_bare r = verdictForAsthma r"
  using assms
  by (simp add: verdictForAsthma_bare_def verdictForAsthma_table bare_ge
      red_def yellow_def green_def)

lemma verdictForAsthma_bare_infinite_temperature:
  "verdictForAsthma_bare \<lparr>tempC = Num PosInf, rh = Null, windKmh = Null, aqi = Num (Fin 60)\<rparr> = red \<and>
   verdictForAsthma \<lparr>tempC = Num PosInf, rh = Null, windKmh = Null, aqi = Num (Fin 60)\<rparr> = yellow"
  by (simp add: verdictForAsthma_bare_def verdictForAsthma_def js_ge_def
      red_def yellow_def)

text \<open>
  C1. When the index is present and at least 101 the verdict is red, "Indoor only",
  whatever the temperature, the humidity and the wind are, absent values included. When
  the index is present and lies in [51, 100] the verdict is red, "Indoor only", if the
  temperature is present and at least 32, and yellow, "Caution", otherwise.
\<close>

theorem verdict_aqi_rows:
  "(at_least (aqi r) 101 \<longrightarrow>
      verdictForAsthma r = \<lparr>icon = Red, text_str = ''Indoor only''\<rparr>) \<and>
   (at_least (aqi r) 51 \<and> at_most (aqi r) 100 \<longrightarrow>
      verdictForAsthma r =
        (if at_least (tempC r) 32 then \<lparr>icon = Red, text_str = ''Indoor only''\<rparr>
         else \<lparr>icon = Yellow, text_str = ''Caution''\<rparr>))"
proof (intro conjI impI)
  assume "at_least (aqi r) 101"
  then show "verdictForAsthma r = \<lparr>icon = Red, text_str = ''Indoor only''\<rparr>"
    by (simp add: verdictForAsthma_table red_def)
next
  assume h: "at_least (aqi r) 51 \<and> at_most (aqi r) 100"
  then have "\<not> at_least (aqi r) 101"
    using at_most_not_at_least [of "aqi r" 100 101] by simp
  with h show "verdictForAsthma r =
        (if at_least (tempC r) 32 then \<lparr>icon = Red, text_str = ''Indoor only''\<rparr>
         else \<lparr>icon = Yellow, text_str = ''Caution''\<rparr>)"
    by (simp add: verdictForAsthma_table red_def yellow_def)
qed

theorem verdict_aqi_rows_witness:
  "at_least (Num (Fin 120)) 101 \<and>
   verdictForAsthma \<lparr>tempC = Null, rh = Undefined, windKmh = Null, aqi = Num (Fin 120)\<rparr>
     = \<lparr>icon = Red, text_str = ''Indoor only''\<rparr> \<and>
   at_least (Num (Fin 75)) 51 \<and> at_most (Num (Fin 75)) 100 \<and>
   verdictForAsthma \<lparr>tempC = Num (Fin 33), rh = Null, windKmh = Null, aqi = Num (Fin 75)\<rparr>
     = \<lparr>icon = Red, text_str = ''Indoor only''\<rparr> \<and>
   at_least (Num (Fin 100)) 51 \<and> at_most (Num (Fin 100)) 100 \<and>
   verdictForAsthma \<lparr>tempC = Null, rh = Num (Fin 90), windKmh = Null, aqi = Num (Fin 100)\<rparr>
     = \<lparr>icon = Yellow, text_str = ''Caution''\<rparr>"
  using verdict_aqi_rows [of "\<lparr>tempC = Null, rh = Undefined, windKmh = Null, aqi = Num (Fin 120)\<rparr>"]
    verdict_aqi_rows [of "\<lparr>tempC = Num (Fin 33), rh = Null, windKmh = Null, aqi = Num (Fin 75)\<rparr>"]
    verdict_aqi_rows [of "\<lparr>tempC = Null, rh = Num (Fin 90), windKmh = Null, aqi = Num (Fin 100)\<rparr>"]
  by simp

text \<open>
  C2. When the index is absent or below 51: the verdict is red, "Indoor only", if the
  temperature is present and at least 32; otherwise yellow, "Caution", if the temperature
  is present and at least 28 or the humidity is present and at least 75; otherwise green,
  "Safe to run". An absent value satisfies no threshold, so a reading whose temperature,
  humidity and index are all absent is green whatever its wind field holds.
\<close>

theorem verdict_heat_rows:
  "(\<not> isFinite (aqi r) \<or> below (aqi r) 51 \<longrightarrow>
      verdictForAsthma r =
        (if at_least (tempC r) 32 then \<lparr>icon = Red, text_str = ''Indoor only''\<rparr>
         else if at_least (tempC r) 28 \<or> at_least (rh r) 75
           then \<lparr>icon = Yellow, text_str = ''Caution''\<rparr>
         else \<lparr>icon = Green, text_str = ''Safe to run''\<rparr>)) \<and>
   (\<not> isFinite (tempC r) \<and> \<not> isFinite (rh r) \<and> \<not> isFinite (aqi r) \<longrightarrow>
      verdictForAsthma r = \<lparr>icon = Green, text_str = ''Safe to run''\<rparr>)"
proof (intro conjI impI)
  assume h: "\<not> isFinite (aqi r) \<or> below (aqi r) 51"
  have "\<not> at_least (aqi r) 51"
    using h by (rule absent_or_below)
  moreover have "\<not> at_least (aqi r) 101"
    using h absent_or_below [of "aqi r" 101]
    by (cases "(aqi r, 51::rat)" rule: below.cases) simp_all
  ultimately show "verdictForAsthma r =
        (if at_least (tempC r) 32 then \<lparr>icon = Red, text_str = ''Indoor only''\<rparr>
         else if at_least (tempC r) 28 \<or> at_least (rh r) 75
           then \<lparr>icon = Yellow, text_str = ''Caution''\<rparr>
         else \<lparr>icon = Green, text_str = ''Safe to run''\<rparr>)"
    by (simp add: verdictForAsthma_table red_def yellow_def green_def)
next
  assume "\<not> isFinite (tempC r) \<and> \<not> isFinite (rh r) \<and> \<not> isFinite (aqi r)"
  then show "verdictForAsthma r = \<lparr>icon = Green, text_str = ''Safe to run''\<rparr>"
    by (simp add: verdictForAsthma_table absent_not_at_least green_def)
qed

theorem verdict_heat_rows_witness:
  "below (Num (Fin 40)) 51 \<and>
   verdictForAsthma \<lparr>tempC = Num (Fin 30), rh = Num (Fin 50), windKmh = Num (Fin 10),
      aqi = Num (Fin 40)\<rparr> = \<lparr>icon = Yellow, text_str = ''Caution''\<rparr> \<and>
   \<not> isFinite Null \<and>
   verdictForAsthma \<lparr>tempC = Num (Fin 35), rh = Null, windKmh = Null, aqi = Null\<rparr>
     = \<lparr>icon = Red, text_str = ''Indoor only''\<rparr> \<and>
   verdictForAsthma \<lparr>tempC = Num (Fin 20), rh = Num (Fin 74), windKmh = Null, aqi = Null\<rparr>
     = \<lparr>icon = Green, text_str = ''Safe to run''\<rparr> \<and>
   \<not> isFinite Undefined \<and> \<not> isFinite (Num NaN) \<and>
   verdictForAsthma \<lparr>tempC = Null, rh = Undefined, windKmh = Null, aqi = Num NaN\<rparr>
     = \<lparr>icon = Green, text_str = ''Safe to run''\<rparr>"
  using verdict_heat_rows [of "\<lparr>tempC = Num (Fin 30), rh = Num (Fin 50), windKmh = Num (Fin 10),
      aqi = Num (Fin 40)\<rparr>"]
    verdict_heat_rows [of "\<lparr>tempC = Num (Fin 35), rh = Null, windKmh = Null, aqi = Null\<rparr>"]
    verdict_heat_rows [of "\<lparr>tempC = Num (Fin 20), rh = Num (Fin 74), windKmh = Null, aqi = Null\<rparr>"]
    verdict_heat_rows [of "\<lparr>tempC = Null, rh = Undefined, windKmh = Null, aqi = Num NaN\<rparr>"]
  by simp

text \<open>
  C9. The wind field does not reach the verdict: two readings that differ in the wind
  only, whatever the two wind values are, get the same verdict, from the guarded function
  and from the bare one.
\<close>

theorem verdict_ignores_wind:
  "verdictForAsthma \<lparr>tempC = t, rh = h, windKmh = w1, aqi = a\<rparr> =
   verdictForAsthma \<lparr>tempC = t, rh = h, windKmh = w2, aqi = a\<rparr> \<and>
   verdictForAsthma_bare \<lparr>tempC = t, rh = h, windKmh = w1, aqi = a\<rparr> =
   verdictForAsthma_bare \<lparr>tempC = t, rh = h, windKmh = w2, aqi = a\<rparr>"
  by (simp add: verdictForAsthma_def verdictForAsthma_bare_def)

section \<open>Properties of double precision rounding\<close>

lemma rne_error: "\<bar>of_int (rne z) - z\<bar> \<le> 1 / 2"
proof -
  have "of_int \<lfloor>z\<rfloor> \<le> z" "z < of_int \<lfloor>z\<rfloor> + 1"
    by linarith+
  then show ?thesis
    unfolding rne_def Let_def by (auto simp: abs_le_iff)
qed

lemma ilog2_le:
  assumes "0 < x"
  shows "2 powi (ilog2 x) \<le> x"
proof -
  obtain p q where pq: "quotient_of x = (p, q)"
    by force
  have q: "0 < q"
    using pq by (rule quotient_of_denom_pos)
  have x: "x = of_int p / of_int q"
    using pq by (rule quotient_of_div)
  have p: "0 < p"
    using assms q x by (simp add: zero_less_divide_iff)
  let ?e = "bitlen p - bitlen q"
  show ?thesis
  proof (cases "2 powi ?e \<le> x")
    case True
    then show ?thesis by (simp add: ilog2_def pq)
  next
    case False
    then have e: "ilog2 x = ?e - 1"
      by (simp add: ilog2_def pq)
    have bp: "1 \<le> bitlen p"
      using p by (simp add: bitlen_alt_def)
    have lo: "(2::int) ^ nat (bitlen p - 1) \<le> p"
      using bitlen_bounds [OF p] by simp
    have hi: "q < (2::int) ^ nat (bitlen q)"
      using bitlen_bounds [OF q] by simp
    have "?e - 1 = (bitlen p - 1) - bitlen q"
      by simp
    moreover have "(2::rat) powi ((bitlen p - 1) - bitlen q)
        = 2 powi (bitlen p - 1) / 2 powi (bitlen q)"
      by (rule power_int_diff) simp
    ultimately have "(2::rat) powi (?e - 1) = 2 powi (bitlen p - 1) / 2 powi (bitlen q)"
      by (simp only:)
    also have "\<dots> = 2 ^ nat (bitlen p - 1) / 2 ^ nat (bitlen q)"
      using bp bitlen_nonneg [of q] by (simp add: power_int_def)
    also have "\<dots> \<le> of_int p / of_int q"
    proof (rule frac_le)
      show "(0::rat) \<le> of_int p" using p by simp
      have "(of_int ((2::int) ^ nat (bitlen p - 1)) :: rat) \<le> of_int p"
        using lo by (simp only: of_int_le_iff)
      then show "(2::rat) ^ nat (bitlen p - 1) \<le> of_int p" by simp
      show "(0::rat) < of_int q" using q by simp
      have "(of_int q :: rat) \<le> of_int ((2::int) ^ nat (bitlen q))"
        using hi by (simp only: of_int_le_iff)
      then show "(of_int q :: rat) \<le> 2 ^ nat (bitlen q)" by simp
    qed
    finally have "(2::rat) powi (?e - 1) \<le> of_int p / of_int q" .
    then have "(2::rat) powi (?e - 1) \<le> x"
      by (simp only: x [symmetric])
    then show ?thesis
      by (simp only: e)
  qed
qed

lemma quantum_pos: "0 < quantum x"
  by (simp add: quantum_def)

lemma binary64_error: "\<bar>binary64 x - x\<bar> \<le> quantum x / 2"
proof (cases "x = 0")
  case True
  then show ?thesis
    using quantum_pos [of x] by (simp add: binary64_def)
next
  case False
  let ?q = "quantum x"
  have q: "0 < ?q" by (rule quantum_pos)
  have "binary64 x - x = (of_int (rne (x / ?q)) - x / ?q) * ?q"
    using False q by (simp add: binary64_def algebra_simps)
  then have "\<bar>binary64 x - x\<bar> = \<bar>of_int (rne (x / ?q)) - x / ?q\<bar> * ?q"
    using q by (simp add: abs_mult)
  also have "\<dots> \<le> 1 / 2 * ?q"
    using rne_error [of "x / ?q"] q by (intro mult_right_mono) simp_all
  finally show ?thesis by simp
qed

lemma quantum_small:
  assumes "\<bar>x\<bar> \<le> 2048"
  shows "quantum x \<le> 2 * delta"
proof (cases "x = 0")
  case True
  have "ilog2 0 = - 2"
    by code_simp
  then have "max (ilog2 0) (- 1022) - 52 \<le> - 41"
    by simp
  then have "(2::rat) powi (max (ilog2 0) (- 1022) - 52) \<le> 2 powi (- 41)"
    by (intro power_int_increasing) simp_all
  then show ?thesis
    using True by (simp add: quantum_def delta_def power_int_minus)
next
  case False
  then have "2 powi (ilog2 \<bar>x\<bar>) \<le> \<bar>x\<bar>"
    by (intro ilog2_le) simp
  also have "\<dots> \<le> 2 powi 11"
    using assms by simp
  finally have "(2::rat) powi (ilog2 \<bar>x\<bar>) \<le> 2 powi 11" .
  then have "ilog2 \<bar>x\<bar> \<le> 11"
    by (rule power_int_le_imp_le_exp [rotated]) simp_all
  then have "max (ilog2 \<bar>x\<bar>) (- 1022) - 52 \<le> - 41"
    by simp
  then have "(2::rat) powi (max (ilog2 \<bar>x\<bar>) (- 1022) - 52) \<le> 2 powi (- 41)"
    by (intro power_int_increasing) simp_all
  then show ?thesis
    by (simp add: quantum_def delta_def power_int_minus)
qed

lemma binary64_close:
  assumes "\<bar>x\<bar> \<le> 2048"
  shows "\<bar>binary64 x - x\<bar> \<le> delta"
  using binary64_error [of x] quantum_small [OF assms] by simp

lemma to_double_close:
  assumes "\<bar>x\<bar> \<le> 2048"
  shows "to_double x = Fin (binary64 x)"
proof -
  have "delta \<le> 1"
    by (simp add: delta_def)
  then have "\<bar>binary64 x\<bar> \<le> 2049"
    using binary64_close [OF assms] assms by linarith
  moreover have "(2049::rat) < 2 ^ 1024"
    by simp
  ultimately have "binary64 x < 2 ^ 1024" "- (2 ^ 1024) < binary64 x"
    by linarith+
  then show ?thesis
    by (simp add: to_double_def Let_def del: power_numeral)
qed


lemma ilog2_less:
  assumes "0 < x"
  shows "x < 2 powi (ilog2 x + 1)"
proof -
  obtain p q where pq: "quotient_of x = (p, q)"
    by force
  have q: "0 < q"
    using pq by (rule quotient_of_denom_pos)
  have x: "x = of_int p / of_int q"
    using pq by (rule quotient_of_div)
  have p: "0 < p"
    using assms q x by (simp add: zero_less_divide_iff)
  let ?e = "bitlen p - bitlen q"
  show ?thesis
  proof (cases "2 powi ?e \<le> x")
    case False
    then show ?thesis by (simp add: ilog2_def pq)
  next
    case True
    then have e: "ilog2 x = ?e"
      by (simp add: ilog2_def pq)
    have bq: "1 \<le> bitlen q"
      using q by (simp add: bitlen_alt_def)
    have hi: "p < (2::int) ^ nat (bitlen p)"
      using bitlen_bounds [OF p] by simp
    have lo: "(2::int) ^ nat (bitlen q - 1) \<le> q"
      using bitlen_bounds [OF q] by simp
    have "(of_int p :: rat) < of_int ((2::int) ^ nat (bitlen p))"
      using hi by (simp only: of_int_less_iff)
    then have hi': "(of_int p :: rat) < 2 ^ nat (bitlen p)"
      by simp
    have "(of_int ((2::int) ^ nat (bitlen q - 1)) :: rat) \<le> of_int q"
      using lo by (simp only: of_int_le_iff)
    then have lo': "(2::rat) ^ nat (bitlen q - 1) \<le> of_int q"
      by simp
    have "of_int p / of_int q < (2::rat) ^ nat (bitlen p) / 2 ^ nat (bitlen q - 1)"
      using hi' lo' p by (intro frac_less) simp_all
    also have "\<dots> = 2 powi (bitlen p) / 2 powi (bitlen q - 1)"
      using bq bitlen_nonneg [of p] by (simp add: power_int_def)
    also have "\<dots> = 2 powi (bitlen p - (bitlen q - 1))"
      by (rule power_int_diff [symmetric]) simp
    also have "bitlen p - (bitlen q - 1) = ?e + 1"
      by simp
    finally have "of_int p / of_int q < (2::rat) powi (?e + 1)" .
    then have "x < (2::rat) powi (?e + 1)"
      by (simp only: x [symmetric])
    then show ?thesis
      by (simp only: e)
  qed
qed

lemma ilog2_mono:
  assumes "0 < x" "x \<le> y"
  shows "ilog2 x \<le> ilog2 y"
proof -
  have "2 powi (ilog2 x) \<le> x"
    using assms(1) by (rule ilog2_le)
  also have "x \<le> y" by fact
  also have "y < 2 powi (ilog2 y + 1)"
    using assms by (intro ilog2_less) simp
  finally have lt: "(2::rat) powi (ilog2 x) < 2 powi (ilog2 y + 1)" .
  have "ilog2 x < ilog2 y + 1"
  proof (rule ccontr)
    assume "\<not> ilog2 x < ilog2 y + 1"
    then have "ilog2 y + 1 \<le> ilog2 x"
      by simp
    then have "(2::rat) powi (ilog2 y + 1) \<le> 2 powi (ilog2 x)"
      by (intro power_int_increasing) simp_all
    with lt show False by simp
  qed
  then show ?thesis by simp
qed

lemma rne_of_int: "rne (of_int n) = n"
  by (simp add: rne_def)

lemma rne_mono:
  assumes "z \<le> z'"
  shows "rne z \<le> rne z'"
proof (cases "\<lfloor>z\<rfloor> = \<lfloor>z'\<rfloor>")
  case True
  then show ?thesis
    using assms by (auto simp: rne_def Let_def)
next
  case False
  then have "\<lfloor>z\<rfloor> + 1 \<le> \<lfloor>z'\<rfloor>"
    using floor_mono [OF assms] by simp
  moreover have "rne z \<le> \<lfloor>z\<rfloor> + 1"
    by (auto simp: rne_def Let_def)
  moreover have "\<lfloor>z'\<rfloor> \<le> rne z'"
    by (auto simp: rne_def Let_def)
  ultimately show ?thesis by simp
qed

lemma binary64_nonneg:
  assumes "0 \<le> x"
  shows "0 \<le> binary64 x"
proof -
  have "0 \<le> x / quantum x"
    using assms quantum_pos [of x] by simp
  then have "rne 0 \<le> rne (x / quantum x)"
    by (rule rne_mono)
  then have "0 \<le> rne (x / quantum x)"
    using rne_of_int [of 0] by simp
  then show ?thesis
    using quantum_pos [of x] by (simp add: binary64_def)
qed

lemma binary64_mono_pos:
  assumes "0 < x" "x \<le> y"
  shows "binary64 x \<le> binary64 y"
proof -
  let ?ex = "max (ilog2 x) (- 1022)" and ?ey = "max (ilog2 y) (- 1022)"
  have y: "0 < y" using assms by simp
  have qx: "quantum x = 2 powi (?ex - 52)" and qy: "quantum y = 2 powi (?ey - 52)"
    using assms y by (simp_all add: quantum_def)
  have fx: "binary64 x = of_int (rne (x / quantum x)) * quantum x"
    and fy: "binary64 y = of_int (rne (y / quantum y)) * quantum y"
    using assms y by (simp_all add: binary64_def)
  have le: "?ex \<le> ?ey"
    using ilog2_mono [OF assms] by simp
  show ?thesis
  proof (cases "?ex = ?ey")
    case True
    then have q: "quantum x = quantum y"
      by (simp only: qx qy)
    have "x / quantum y \<le> y / quantum y"
      using assms(2) quantum_pos [of y] by (simp add: divide_right_mono)
    then have "rne (x / quantum y) \<le> rne (y / quantum y)"
      by (rule rne_mono)
    then have "(of_int (rne (x / quantum y)) :: rat) \<le> of_int (rne (y / quantum y))"
      by (simp only: of_int_le_iff)
    then show ?thesis
      unfolding fx fy q using quantum_pos [of y] by (simp add: mult_right_mono)
  next
    case False
    with le have lt: "?ex + 1 \<le> ?ey" by simp
    then have ey: "?ey = ilog2 y" by simp
    have "x < 2 powi (ilog2 x + 1)"
      using assms(1) by (rule ilog2_less)
    also have "\<dots> \<le> 2 powi (?ex + 1)"
      by (intro power_int_increasing) simp_all
    finally have xb: "x \<le> 2 powi (?ex + 1)" by simp
    have "x / quantum x \<le> 2 powi (?ex + 1) / quantum x"
      using xb quantum_pos [of x] by (simp add: divide_right_mono)
    also have "\<dots> = 2 powi ((?ex + 1) - (?ex - 52))"
      unfolding qx by (rule power_int_diff [symmetric]) simp
    also have "(?ex + 1) - (?ex - 52) = 53"
      by simp
    finally have "x / quantum x \<le> of_int (2 ^ 53)"
      by simp
    then have "rne (x / quantum x) \<le> rne (of_int (2 ^ 53))"
      by (rule rne_mono)
    then have "rne (x / quantum x) \<le> 2 ^ 53"
      by (simp only: rne_of_int)
    then have "(of_int (rne (x / quantum x)) :: rat) \<le> of_int (2 ^ 53)"
      by (simp only: of_int_le_iff)
    then have "binary64 x \<le> of_int (2 ^ 53) * quantum x"
      unfolding fx using quantum_pos [of x] by (intro mult_right_mono) simp_all
    also have "\<dots> = 2 powi 53 * 2 powi (?ex - 52)"
      by (simp add: qx)
    also have "\<dots> = 2 powi (53 + (?ex - 52))"
      by (rule power_int_add [symmetric]) simp
    also have "\<dots> \<le> 2 powi ?ey"
      using lt by (intro power_int_increasing) simp_all
    finally have a: "binary64 x \<le> 2 powi ?ey" .
    have "2 powi ?ey \<le> y"
      unfolding ey using y by (rule ilog2_le)
    then have "2 powi ?ey / quantum y \<le> y / quantum y"
      using quantum_pos [of y] by (simp add: divide_right_mono)
    moreover have "2 powi ?ey / quantum y = 2 powi (?ey - (?ey - 52))"
      unfolding qy by (rule power_int_diff [symmetric]) simp
    moreover have "?ey - (?ey - 52) = 52"
      by simp
    ultimately have "of_int (2 ^ 52) \<le> y / quantum y"
      by simp
    then have "rne (of_int (2 ^ 52)) \<le> rne (y / quantum y)"
      by (rule rne_mono)
    then have "2 ^ 52 \<le> rne (y / quantum y)"
      by (simp only: rne_of_int)
    then have "(of_int (2 ^ 52) :: rat) \<le> of_int (rne (y / quantum y))"
      by (simp only: of_int_le_iff)
    then have "of_int (2 ^ 52) * quantum y \<le> binary64 y"
      unfolding fy using quantum_pos [of y] by (intro mult_right_mono) simp_all
    moreover have "of_int (2 ^ 52) * quantum y = 2 powi 52 * 2 powi (?ey - 52)"
      by (simp add: qy)
    moreover have "(2::rat) powi 52 * 2 powi (?ey - 52) = 2 powi (52 + (?ey - 52))"
      by (rule power_int_add [symmetric]) simp
    ultimately have "2 powi ?ey \<le> binary64 y"
      by simp
    with a show ?thesis by simp
  qed
qed

lemma binary64_mono:
  assumes "0 \<le> x" "x \<le> y"
  shows "binary64 x \<le> binary64 y"
proof (cases "x = 0")
  case True
  then show ?thesis
    using binary64_nonneg [of y] assms by (simp add: binary64_def)
next
  case False
  then show ?thesis
    using assms by (intro binary64_mono_pos) simp_all
qed

section \<open>Properties of the index calculator\<close>

lemma delta_pos: "0 < delta"
  by (simp add: delta_def)

lemma delta_small: "delta \<le> 1 / 1000000000000"
  by (simp add: delta_def)

lemma mult_close:
  fixes X Y x y :: rat
  assumes "\<bar>X - x\<bar> \<le> e1" "\<bar>Y - y\<bar> \<le> e2" "\<bar>X\<bar> \<le> mX" "\<bar>y\<bar> \<le> my"
  shows "\<bar>X * Y - x * y\<bar> \<le> mX * e2 + e1 * my"
proof -
  have "X * Y - x * y = X * (Y - y) + (X - x) * y"
    by (simp add: algebra_simps)
  then have "\<bar>X * Y - x * y\<bar> \<le> \<bar>X * (Y - y)\<bar> + \<bar>(X - x) * y\<bar>"
    by (simp only: abs_triangle_ineq)
  also have "\<dots> = \<bar>X\<bar> * \<bar>Y - y\<bar> + \<bar>X - x\<bar> * \<bar>y\<bar>"
    by (simp only: abs_mult)
  also have "\<dots> \<le> mX * e2 + e1 * my"
  proof (intro add_mono mult_mono)
    show "0 \<le> mX" using assms(3) by linarith
    show "0 \<le> e1" using assms(1) by linarith
  qed (use assms in simp_all)
  finally show ?thesis .
qed

lemma div_close:
  fixes A B a b :: rat
  assumes "\<bar>A - a\<bar> \<le> e" "\<bar>B - b\<bar> \<le> e" "0 \<le> a" "a \<le> m * b" "0 < b" "k \<le> B" "0 < k"
  shows "\<bar>A / B - a / b\<bar> \<le> e * (1 + m) / k"
proof -
  have B: "0 < B" using assms(6,7) by linarith
  have e: "0 \<le> e" using assms(1) by linarith
  have s: "0 \<le> a / b" "a / b \<le> m"
    using assms(3,4,5) by (simp_all add: pos_divide_le_eq)
  have eq: "(A / B - a / b) * B = (A - a) + a / b * (b - B)"
    using B assms(5) by (simp add: field_simps)
  have "\<bar>A / B - a / b\<bar> * B = \<bar>(A / B - a / b) * B\<bar>"
    using B by (simp add: abs_mult)
  also have "\<dots> = \<bar>(A - a) + a / b * (b - B)\<bar>"
    by (simp only: eq)
  also have "\<dots> \<le> \<bar>A - a\<bar> + \<bar>a / b * (b - B)\<bar>"
    by (rule abs_triangle_ineq)
  also have "\<bar>a / b * (b - B)\<bar> = a / b * \<bar>B - b\<bar>"
    using assms(3,5) by (simp add: abs_mult abs_minus_commute)
  also have "a / b * \<bar>B - b\<bar> \<le> m * e"
    using s assms(2) by (intro mult_mono) simp_all
  finally have "\<bar>A / B - a / b\<bar> * B \<le> e * (1 + m)"
    using assms(1) by (simp add: algebra_simps)
  then have "\<bar>A / B - a / b\<bar> \<le> e * (1 + m) / B"
    using B by (simp add: pos_le_divide_eq)
  also have "\<dots> \<le> e * (1 + m) / k"
  proof (rule divide_left_mono)
    show "k \<le> B" by fact
    have "0 \<le> m" using s by linarith
    then show "0 \<le> e * (1 + m)" using e by simp
    show "0 < B * k" using B assms(7) by simp
  qed
  finally show ?thesis .
qed


lemma binary64_step:
  assumes "\<bar>x - y\<bar> \<le> e" "\<bar>y\<bar> + e \<le> 2048"
  shows "to_double x = Fin (binary64 x)" and "\<bar>binary64 x - y\<bar> \<le> e + delta"
proof -
  have x: "\<bar>x\<bar> \<le> 2048"
    using assms by linarith
  then show "to_double x = Fin (binary64 x)"
    by (rule to_double_close)
  show "\<bar>binary64 x - y\<bar> \<le> e + delta"
    using binary64_close [OF x] assms(1) by linarith
qed

lemma affine64_chain:
  assumes "row_ok b" "inside c b"
  shows "interpolate b c = Num (Fin (of_int (math_round (affine64 b c)))) \<and>
         \<bar>affine64 b c - affine b c\<bar> \<le> 640 * delta"
proof -
  obtain Cl Ch Il Ih where b: "b = (Cl, Ch, Il, Ih)"
    by (cases b) auto
  from assms have r: "0 \<le> Cl" "Cl + 12 \<le> Ch" "Ch \<le> Cl + 150" "Ch \<le> 1000"
      "Il \<le> Ih" "Ih \<le> Il + 100" "0 \<le> Il" "Ih \<le> 500" "Cl \<le> c" "c \<le> Ch"
    by (simp_all add: b row_ok_def inside_def)
  note d = delta_pos delta_small
  define a1 where "a1 = binary64 Ih"
  define a2 where "a2 = binary64 Il"
  define b1 where "b1 = binary64 Ch"
  define b2 where "b2 = binary64 Cl"
  define c1 where "c1 = binary64 c"
  define A where "A = binary64 (a1 - a2)"
  define B where "B = binary64 (b1 - b2)"
  define S where "S = binary64 (A / B)"
  define T where "T = binary64 (c1 - b2)"
  define P where "P = binary64 (S * T)"
  define Q where "Q = binary64 (P + a2)"
  have a1: "to_double Ih = Fin a1" "\<bar>a1 - Ih\<bar> \<le> delta"
    using binary64_step [of Ih Ih 0] r d by (simp_all add: a1_def)
  have a2: "to_double Il = Fin a2" "\<bar>a2 - Il\<bar> \<le> delta"
    using binary64_step [of Il Il 0] r d by (simp_all add: a2_def)
  have b1: "to_double Ch = Fin b1" "\<bar>b1 - Ch\<bar> \<le> delta"
    using binary64_step [of Ch Ch 0] r d by (simp_all add: b1_def)
  have b2: "to_double Cl = Fin b2" "\<bar>b2 - Cl\<bar> \<le> delta"
    using binary64_step [of Cl Cl 0] r d by (simp_all add: b2_def)
  have c1: "to_double c = Fin c1" "\<bar>c1 - c\<bar> \<le> delta"
    using binary64_step [of c c 0] r d by (simp_all add: c1_def)
  have "\<bar>(a1 - a2) - (Ih - Il)\<bar> \<le> 2 * delta"
    using a1(2) a2(2) by linarith
  moreover have "\<bar>Ih - Il\<bar> + 2 * delta \<le> 2048"
    using r d by linarith
  ultimately have A: "to_double (a1 - a2) = Fin A" "\<bar>A - (Ih - Il)\<bar> \<le> 3 * delta"
    using binary64_step [of "a1 - a2" "Ih - Il" "2 * delta"] by (simp_all add: A_def)
  have "\<bar>(b1 - b2) - (Ch - Cl)\<bar> \<le> 2 * delta"
    using b1(2) b2(2) by linarith
  moreover have "\<bar>Ch - Cl\<bar> + 2 * delta \<le> 2048"
    using r d by linarith
  ultimately have B: "to_double (b1 - b2) = Fin B" "\<bar>B - (Ch - Cl)\<bar> \<le> 3 * delta"
    using binary64_step [of "b1 - b2" "Ch - Cl" "2 * delta"] by (simp_all add: B_def)
  have Bk: "11 \<le> B"
    using B(2) r d by linarith
  define s0 where "s0 = (Ih - Il) / (Ch - Cl)"
  define y where "y = s0 * (c - Cl)"
  have "\<bar>A / B - (Ih - Il) / (Ch - Cl)\<bar> \<le> 3 * delta * (1 + 9) / 11"
    using A(2) B(2) Bk r by (intro div_close) simp_all
  moreover have "3 * delta * (1 + 9) / 11 \<le> 3 * delta"
    using d by simp
  ultimately have "\<bar>A / B - (Ih - Il) / (Ch - Cl)\<bar> \<le> 3 * delta"
    by (rule order_trans)
  then have q: "\<bar>A / B - s0\<bar> \<le> 3 * delta"
    by (simp only: s0_def)
  have s: "0 \<le> s0" "s0 \<le> 9"
    using r by (simp_all add: s0_def pos_divide_le_eq)
  have "\<bar>s0\<bar> + 3 * delta \<le> 2048"
    using s d by linarith
  then have S: "to_double (A / B) = Fin S" "\<bar>S - s0\<bar> \<le> 4 * delta"
    using binary64_step [of "A / B" s0 "3 * delta"] q by (simp_all add: S_def)
  have Sm: "\<bar>S\<bar> \<le> 10"
    using S(2) s d by linarith
  have "\<bar>(c1 - b2) - (c - Cl)\<bar> \<le> 2 * delta"
    using c1(2) b2(2) by linarith
  moreover have "\<bar>c - Cl\<bar> + 2 * delta \<le> 2048"
    using r d by linarith
  ultimately have T: "to_double (c1 - b2) = Fin T" "\<bar>T - (c - Cl)\<bar> \<le> 3 * delta"
    using binary64_step [of "c1 - b2" "c - Cl" "2 * delta"] by (simp_all add: T_def)
  have t: "\<bar>c - Cl\<bar> \<le> 150"
    using r by linarith
  have "\<bar>S * T - s0 * (c - Cl)\<bar> \<le> 10 * (3 * delta) + 4 * delta * 150"
    using S(2) T(2) Sm t by (rule mult_close)
  then have p: "\<bar>S * T - y\<bar> \<le> 630 * delta"
    by (simp add: y_def)
  have "s0 * (c - Cl) \<le> s0 * (Ch - Cl)"
    using s(1) r by (intro mult_left_mono) simp_all
  also have "\<dots> = Ih - Il"
    using r by (simp add: s0_def)
  finally have "y \<le> Ih - Il"
    by (simp only: y_def)
  moreover have "0 \<le> y"
    using s(1) r by (simp add: y_def)
  ultimately have st: "0 \<le> y" "y \<le> 100"
    using r by linarith+
  have "\<bar>y\<bar> + 630 * delta \<le> 2048"
    using st d by linarith
  then have P: "to_double (S * T) = Fin P" "\<bar>P - y\<bar> \<le> 631 * delta"
    using binary64_step [of "S * T" y "630 * delta"] p by (simp_all add: P_def)
  have "\<bar>(P + a2) - (y + Il)\<bar> \<le> 632 * delta"
    using P(2) a2(2) by linarith
  moreover have "\<bar>y + Il\<bar> + 632 * delta \<le> 2048"
    using st r d by linarith
  ultimately have Q: "to_double (P + a2) = Fin Q" "\<bar>Q - (y + Il)\<bar> \<le> 633 * delta"
    using binary64_step [of "P + a2" "y + Il" "632 * delta"] by (simp_all add: Q_def)
  have ya: "affine b c = y + Il"
    by (simp add: affine_def b y_def s0_def)
  have Q64: "affine64 b c = Q"
    by (simp add: affine64_def b Q_def P_def T_def S_def B_def A_def c1_def b2_def b1_def
        a2_def a1_def)
  have B0: "B \<noteq> 0"
    using Bk by linarith
  have "interpolate b c = Num (Fin (of_int (math_round Q)))"
    by (simp add: interpolate_def b a1 a2 b1 b2 c1 js_sub_def A B B0 S T P Q)
  moreover have "\<bar>Q - affine b c\<bar> \<le> 640 * delta"
    unfolding ya using Q(2) d by linarith
  ultimately show ?thesis
    by (simp add: Q64)
qed


lemma math_round_mono: "x \<le> y \<Longrightarrow> math_round x \<le> math_round y"
  by (simp add: math_round_def floor_mono)

lemma math_round_of_int: "math_round (of_int n) = n"
  by (simp add: math_round_def floor_eq_iff)

lemma affine_mono:
  assumes "lo b < hi b" "ilo b \<le> ihi b" "c \<le> c'"
  shows "affine b c \<le> affine b c'"
proof -
  have "0 \<le> (ihi b - ilo b) / (hi b - lo b)"
    using assms by simp
  moreover have "c - lo b \<le> c' - lo b"
    using assms(3) by simp
  ultimately have "(ihi b - ilo b) / (hi b - lo b) * (c - lo b)
      \<le> (ihi b - ilo b) / (hi b - lo b) * (c' - lo b)"
    by (rule mult_left_mono [rotated])
  then show ?thesis
    unfolding affine_def by simp
qed

lemma affine_lo: "affine b (lo b) = ilo b"
  by (simp add: affine_def)

lemma affine_hi: "lo b < hi b \<Longrightarrow> affine b (hi b) = ihi b"
  by (simp add: affine_def)

lemma interpolate_affine64:
  "row_ok b \<Longrightarrow> inside c b \<Longrightarrow>
     interpolate b c = Num (Fin (of_int (math_round (affine64 b c))))"
  using affine64_chain by blast

lemma affine64_close:
  "row_ok b \<Longrightarrow> inside c b \<Longrightarrow> \<bar>affine64 b c - affine b c\<bar> \<le> 640 * delta"
  using affine64_chain by blast

lemma affine64_mono:
  assumes "row_ok b" "inside c b" "c \<le> c'"
  shows "affine64 b c \<le> affine64 b c'"
proof -
  from assms have r: "0 \<le> lo b" "lo b \<le> hi b" "0 \<le> ilo b" "ilo b \<le> ihi b" "lo b \<le> c"
    by (simp_all add: row_ok_def inside_def)
  define S where "S = binary64 (binary64 (binary64 (ihi b) - binary64 (ilo b))
             / binary64 (binary64 (hi b) - binary64 (lo b)))"
  define T where "T = (\<lambda>c. binary64 (binary64 c - binary64 (lo b)))"
  have e: "affine64 b x = binary64 (binary64 (S * T x) + binary64 (ilo b))" for x
    by (simp add: affine64_def S_def T_def)
  have "0 \<le> binary64 (ihi b) - binary64 (ilo b)"
    using binary64_mono [of "ilo b" "ihi b"] r by simp
  then have A: "0 \<le> binary64 (binary64 (ihi b) - binary64 (ilo b))"
    by (rule binary64_nonneg)
  have "0 \<le> binary64 (hi b) - binary64 (lo b)"
    using binary64_mono [of "lo b" "hi b"] r by simp
  then have B: "0 \<le> binary64 (binary64 (hi b) - binary64 (lo b))"
    by (rule binary64_nonneg)
  have "0 \<le> binary64 (binary64 (ihi b) - binary64 (ilo b))
      / binary64 (binary64 (hi b) - binary64 (lo b))"
    using A B by (rule divide_nonneg_nonneg)
  then have S: "0 \<le> S"
    unfolding S_def by (rule binary64_nonneg)
  have c0: "0 \<le> binary64 c - binary64 (lo b)"
    using binary64_mono [of "lo b" c] r by simp
  have "binary64 c \<le> binary64 c'"
    using assms(3) r by (intro binary64_mono) simp_all
  then have "binary64 c - binary64 (lo b) \<le> binary64 c' - binary64 (lo b)"
    by simp
  then have T: "T c \<le> T c'"
    unfolding T_def using c0 by (intro binary64_mono)
  have T0: "0 \<le> T c"
    unfolding T_def using c0 by (rule binary64_nonneg)
  have ST0: "0 \<le> S * T c"
    using S T0 by simp
  have "S * T c \<le> S * T c'"
    using S T by (rule mult_left_mono [rotated])
  then have P: "binary64 (S * T c) \<le> binary64 (S * T c')"
    using ST0 by (intro binary64_mono)
  have P0: "0 \<le> binary64 (S * T c)"
    using ST0 by (rule binary64_nonneg)
  have I0: "0 \<le> binary64 (ilo b)"
    using r by (intro binary64_nonneg)
  have "binary64 (binary64 (S * T c) + binary64 (ilo b))
      \<le> binary64 (binary64 (S * T c') + binary64 (ilo b))"
    using P P0 I0 by (intro binary64_mono) simp_all
  then show ?thesis
    by (simp only: e)
qed

lemma round_affine64_bounds:
  assumes "row_ok b" "inside c b"
  shows "\<lfloor>ilo b\<rfloor> \<le> math_round (affine64 b c) \<and> math_round (affine64 b c) \<le> \<lfloor>ihi b\<rfloor>"
proof -
  from assms have ok: "lo b < hi b" "ilo b \<le> ihi b" and c: "lo b \<le> c" "c \<le> hi b"
    by (simp_all add: row_ok_def inside_def)
  have "affine b (lo b) \<le> affine b c" "affine b c \<le> affine b (hi b)"
    using ok c by (simp_all add: affine_mono)
  then have y: "ilo b \<le> affine b c" "affine b c \<le> ihi b"
    using ok by (simp_all add: affine_lo affine_hi)
  have d: "640 * delta \<le> 1 / 4"
    using delta_small by simp
  have q: "ilo b - 1 / 4 \<le> affine64 b c" "affine64 b c \<le> ihi b + 1 / 4"
    using affine64_close [OF assms] y d by linarith+
  have e: "of_int \<lfloor>ilo b\<rfloor> = ilo b" "of_int \<lfloor>ihi b\<rfloor> = ihi b"
    using assms(1) unfolding row_ok_def by blast+
  have "of_int \<lfloor>ilo b\<rfloor> \<le> affine64 b c + 1 / 2"
    unfolding e using q(1) by linarith
  then have lower: "\<lfloor>ilo b\<rfloor> \<le> math_round (affine64 b c)"
    by (simp add: math_round_def le_floor_iff)
  have "affine64 b c + 1 / 2 < of_int \<lfloor>ihi b\<rfloor> + 1"
    unfolding e using q(2) by linarith
  then have "affine64 b c + 1 / 2 < of_int (\<lfloor>ihi b\<rfloor> + 1)"
    by simp
  then have "\<lfloor>affine64 b c + 1 / 2\<rfloor> < \<lfloor>ihi b\<rfloor> + 1"
    by (simp only: floor_less_iff)
  then have "math_round (affine64 b c) < \<lfloor>ihi b\<rfloor> + 1"
    by (simp only: math_round_def)
  with lower show ?thesis
    by simp
qed

lemma scan_table_Cons:
  "scan_table c (b # bs) = (if inside c b then interpolate b c else scan_table c bs)"
  by (cases b) (simp add: inside_def)

lemma scan_table_miss:
  "list_all (\<lambda>b. \<not> inside c b) bs \<Longrightarrow> scan_table c bs = Num (Fin 500)"
  by (induction bs) (simp_all add: scan_table_Cons)

lemma scan_table_hit:
  "ascending bs \<Longrightarrow> b \<in> set bs \<Longrightarrow> inside c b \<Longrightarrow> scan_table c bs = interpolate b c"
proof (induction bs)
  case Nil
  then show ?case by simp
next
  case (Cons a bs)
  show ?case
  proof (cases "b = a")
    case True
    with Cons.prems show ?thesis by (simp add: scan_table_Cons)
  next
    case False
    with Cons.prems have b: "b \<in> set bs" by simp
    with Cons.prems have "hi a < lo b"
      by (simp add: list_all_iff)
    with Cons.prems(3) have "\<not> inside c a"
      by (simp add: inside_def)
    with Cons b show ?thesis by (simp add: scan_table_Cons)
  qed
qed

lemma ascending_PM25: "ascending PM25"
  by (simp add: PM25_def row_ok_def)

lemma ascending_PM10: "ascending PM10"
  by (simp add: PM10_def row_ok_def)

lemma ascending_table_for: "ascending (table_for p)"
  by (simp add: table_for_def ascending_PM25 ascending_PM10)

lemma ascending_row_ok: "ascending bs \<Longrightarrow> b \<in> set bs \<Longrightarrow> row_ok b"
  by (induction bs) auto

lemma ascending_apart:
  "ascending bs \<Longrightarrow> b \<in> set bs \<Longrightarrow> b' \<in> set bs \<Longrightarrow> b \<noteq> b' \<Longrightarrow>
     (hi b < lo b' \<and> ihi b \<le> ilo b') \<or> (hi b' < lo b \<and> ihi b' \<le> ilo b)"
  by (induction bs) (auto simp: list_all_iff)

lemma interpolate_bounds:
  assumes "row_ok b" "inside c b"
  shows "\<exists>n. interpolate b c = Num (Fin (of_int n)) \<and> \<lfloor>ilo b\<rfloor> \<le> n \<and> n \<le> \<lfloor>ihi b\<rfloor>"
  using round_affine64_bounds [OF assms] by (simp add: interpolate_affine64 [OF assms])

lemma row_ok_floor:
  assumes "row_ok b"
  shows "0 \<le> \<lfloor>ilo b\<rfloor>" and "\<lfloor>ihi b\<rfloor> \<le> 500"
proof -
  have "0 \<le> ilo b" "ihi b \<le> 500"
    using assms by (simp_all add: row_ok_def)
  then have "\<lfloor>0::rat\<rfloor> \<le> \<lfloor>ilo b\<rfloor>" "\<lfloor>ihi b\<rfloor> \<le> \<lfloor>500::rat\<rfloor>"
    by (simp_all only: floor_mono)
  then show "0 \<le> \<lfloor>ilo b\<rfloor>" and "\<lfloor>ihi b\<rfloor> \<le> 500"
    by simp_all
qed

lemma scan_table_range:
  assumes "ascending bs"
  shows "\<exists>n. scan_table c bs = Num (Fin (of_int n)) \<and> 0 \<le> n \<and> n \<le> 500"
proof (cases "\<exists>b \<in> set bs. inside c b")
  case True
  then obtain b where b: "b \<in> set bs" "inside c b" by blast
  have ok: "row_ok b" using assms b(1) by (rule ascending_row_ok)
  obtain n where n: "interpolate b c = Num (Fin (of_int n))" "\<lfloor>ilo b\<rfloor> \<le> n" "n \<le> \<lfloor>ihi b\<rfloor>"
    using interpolate_bounds [OF ok b(2)] by blast
  have "0 \<le> n" "n \<le> 500"
    using n(2,3) row_ok_floor [OF ok] by linarith+
  then show ?thesis
    using scan_table_hit [OF assms b] n(1) by simp
next
  case False
  then have "scan_table c bs = Num (Fin 500)"
    by (intro scan_table_miss) (simp add: list_all_iff)
  then show ?thesis
    by (intro exI [of _ 500]) simp
qed

lemma scan_table_mono:
  assumes asc: "ascending bs" and b: "b \<in> set bs" "inside c b" and le: "c \<le> c'"
  shows "fin_of (scan_table c bs) \<le> fin_of (scan_table c' bs)"
proof -
  have ok: "row_ok b" using asc b(1) by (rule ascending_row_ok)
  have v: "scan_table c bs = Num (Fin (of_int (math_round (affine64 b c))))"
    using scan_table_hit [OF asc b] ok b(2) by (simp add: interpolate_affine64)
  have up: "math_round (affine64 b c) \<le> \<lfloor>ihi b\<rfloor>"
    using round_affine64_bounds [OF ok b(2)] by simp
  show ?thesis
  proof (cases "\<exists>b' \<in> set bs. inside c' b'")
    case True
    then obtain b' where b': "b' \<in> set bs" "inside c' b'" by blast
    have ok': "row_ok b'" using asc b'(1) by (rule ascending_row_ok)
    have v': "scan_table c' bs = Num (Fin (of_int (math_round (affine64 b' c'))))"
      using scan_table_hit [OF asc b'] ok' b'(2) by (simp add: interpolate_affine64)
    have "math_round (affine64 b c) \<le> math_round (affine64 b' c')"
    proof (cases "b' = b")
      case True
      then show ?thesis
        using ok b(2) le by (simp add: affine64_mono math_round_mono)
    next
      case False
      then have "(hi b < lo b' \<and> ihi b \<le> ilo b') \<or> (hi b' < lo b \<and> ihi b' \<le> ilo b)"
        using ascending_apart [OF asc b(1) b'(1)] by blast
      moreover have "\<not> hi b' < lo b"
        using b(2) b'(2) le by (simp add: inside_def)
      ultimately have "ihi b \<le> ilo b'" by blast
      then have "\<lfloor>ihi b\<rfloor> \<le> \<lfloor>ilo b'\<rfloor>" by (rule floor_mono)
      moreover have "\<lfloor>ilo b'\<rfloor> \<le> math_round (affine64 b' c')"
        using round_affine64_bounds [OF ok' b'(2)] by simp
      ultimately show ?thesis using up by simp
    qed
    then show ?thesis by (simp add: v v')
  next
    case False
    then have "scan_table c' bs = Num (Fin 500)"
      by (intro scan_table_miss) (simp add: list_all_iff)
    moreover have "math_round (affine64 b c) \<le> 500"
      using up row_ok_floor(2) [OF ok] by linarith
    ultimately show ?thesis by (simp add: v)
  qed
qed

lemma usAqi_finite:
  "usAqiFromConcentration (Num (Fin c)) p = scan_table c (table_for p)"
  by (simp add: usAqiFromConcentration_def)

lemma above_top_pm25: "5004 / 10 < c \<Longrightarrow> list_all (\<lambda>b. \<not> inside c b) PM25"
  by (simp add: PM25_def inside_def)

lemma above_top_pm10: "604 < c \<Longrightarrow> list_all (\<lambda>b. \<not> inside c b) PM10"
  by (simp add: PM10_def inside_def)

lemma usAqi_row:
  assumes "b \<in> set (table_for p)" "inside c b"
  shows "usAqiFromConcentration (Num (Fin c)) p = Num (Fin (of_int (math_round (affine64 b c))))"
proof -
  have "row_ok b"
    using ascending_table_for assms(1) by (rule ascending_row_ok)
  then show ?thesis
    using scan_table_hit [OF ascending_table_for assms] assms(2)
    by (simp add: usAqi_finite interpolate_affine64)
qed

lemma math_round_close: "\<bar>of_int (math_round x) - x\<bar> \<le> 1 / 2"
proof -
  have "of_int \<lfloor>x + 1 / 2\<rfloor> \<le> x + 1 / 2" "x + 1 / 2 < of_int \<lfloor>x + 1 / 2\<rfloor> + 1"
    by linarith+
  then show ?thesis
    unfolding math_round_def by linarith
qed

lemma usAqi_row_close:
  assumes "b \<in> set (table_for p)" "inside c b"
  shows "\<exists>n. usAqiFromConcentration (Num (Fin c)) p = Num (Fin (of_int n)) \<and>
           n = math_round (affine64 b c) \<and>
           \<bar>of_int n - affine b c\<bar> \<le> 1 / 2 + 1 / 10 ^ 9"
proof -
  have ok: "row_ok b"
    using ascending_table_for assms(1) by (rule ascending_row_ok)
  have "640 * delta \<le> 1 / 1000000000"
    by (simp add: delta_def)
  then have "\<bar>affine64 b c - affine b c\<bar> \<le> 1 / 1000000000"
    using affine64_close [OF ok assms(2)] by linarith
  then have "\<bar>of_int (math_round (affine64 b c)) - affine b c\<bar> \<le> 1 / 2 + 1 / 1000000000"
    using math_round_close [of "affine64 b c"] by linarith
  then show ?thesis
    using usAqi_row [OF assms] by simp
qed

lemma round_pm25_12: "math_round (affine64 (0, 12, 0, 50) 12) = 50"
  by code_simp

lemma round_pm25_121: "math_round (affine64 (121 / 10, 354 / 10, 51, 100) (121 / 10)) = 51"
  by code_simp

lemma round_pm10_1674: "math_round (affine64 (0, 54, 0, 50) (1674 / 100)) = 15"
  by code_simp

lemma round_pm10_702:
  "math_round (affine64 (0, 54, 0, 50) (1975954336508805 / 281474976710656)) = 7"
  by code_simp

lemma round_pm10_55: "math_round (affine64 (55, 154, 51, 100) 55) = 51"
  by code_simp

lemma round_pm10_200: "math_round (affine64 (155, 254, 101, 150) 200) = 123"
  by code_simp

lemma round_pm25_20: "math_round (affine64 (121 / 10, 354 / 10, 51, 100) 20) = 68"
  by code_simp

lemma round_pm10_300: "math_round (affine64 (255, 354, 151, 200) 300) = 173"
  by code_simp

lemma round_pm25_10: "math_round (affine64 (0, 12, 0, 50) 10) = 42"
  by code_simp

text \<open>Values of the calculator used below.\<close>

lemma usAqi_pm25_12:
  "usAqiFromConcentration (Num (Fin 12)) ''pm25'' = Num (Fin 50)"
proof -
  have "(0, 12, 0, 50) \<in> set (table_for ''pm25'')"
    by (simp add: table_for_def PM25_def)
  moreover have "inside 12 (0, 12, 0, 50)"
    by (simp add: inside_def)
  ultimately have "usAqiFromConcentration (Num (Fin 12)) ''pm25''
      = Num (Fin (of_int (math_round (affine64 (0, 12, 0, 50) 12))))"
    by (rule usAqi_row)
  also have "\<dots> = Num (Fin 50)"
    by (simp only: round_pm25_12) simp
  finally show ?thesis .
qed

lemma usAqi_pm25_121:
  "usAqiFromConcentration (Num (Fin (121 / 10))) ''pm25'' = Num (Fin 51)"
proof -
  have "(121 / 10, 354 / 10, 51, 100) \<in> set (table_for ''pm25'')"
    by (simp add: table_for_def PM25_def)
  moreover have "inside (121 / 10) (121 / 10, 354 / 10, 51, 100)"
    by (simp add: inside_def)
  ultimately have "usAqiFromConcentration (Num (Fin (121 / 10))) ''pm25''
      = Num (Fin (of_int (math_round (affine64 (121 / 10, 354 / 10, 51, 100) (121 / 10)))))"
    by (rule usAqi_row)
  also have "\<dots> = Num (Fin 51)"
    by (simp only: round_pm25_121) simp
  finally show ?thesis .
qed

lemma usAqi_pm25_20:
  "usAqiFromConcentration (Num (Fin 20)) ''pm25'' = Num (Fin 68)"
proof -
  have "(121 / 10, 354 / 10, 51, 100) \<in> set (table_for ''pm25'')"
    by (simp add: table_for_def PM25_def)
  moreover have "inside 20 (121 / 10, 354 / 10, 51, 100)"
    by (simp add: inside_def)
  ultimately have "usAqiFromConcentration (Num (Fin 20)) ''pm25''
      = Num (Fin (of_int (math_round (affine64 (121 / 10, 354 / 10, 51, 100) 20))))"
    by (rule usAqi_row)
  also have "\<dots> = Num (Fin 68)"
    by (simp only: round_pm25_20) simp
  finally show ?thesis .
qed

lemma usAqi_pm25_10:
  "usAqiFromConcentration (Num (Fin 10)) ''pm25'' = Num (Fin 42)"
proof -
  have "(0, 12, 0, 50) \<in> set (table_for ''pm25'')"
    by (simp add: table_for_def PM25_def)
  moreover have "inside 10 (0, 12, 0, 50)"
    by (simp add: inside_def)
  ultimately have "usAqiFromConcentration (Num (Fin 10)) ''pm25''
      = Num (Fin (of_int (math_round (affine64 (0, 12, 0, 50) 10))))"
    by (rule usAqi_row)
  also have "\<dots> = Num (Fin 42)"
    by (simp only: round_pm25_10) simp
  finally show ?thesis .
qed

lemma usAqi_pm10_55:
  "usAqiFromConcentration (Num (Fin 55)) ''pm10'' = Num (Fin 51)"
proof -
  have "(55, 154, 51, 100) \<in> set (table_for ''pm10'')"
    by (simp add: table_for_def PM10_def)
  moreover have "inside 55 (55, 154, 51, 100)"
    by (simp add: inside_def)
  ultimately have "usAqiFromConcentration (Num (Fin 55)) ''pm10''
      = Num (Fin (of_int (math_round (affine64 (55, 154, 51, 100) 55))))"
    by (rule usAqi_row)
  also have "\<dots> = Num (Fin 51)"
    by (simp only: round_pm10_55) simp
  finally show ?thesis .
qed

lemma usAqi_pm10_200:
  "usAqiFromConcentration (Num (Fin 200)) ''pm10'' = Num (Fin 123)"
proof -
  have "(155, 254, 101, 150) \<in> set (table_for ''pm10'')"
    by (simp add: table_for_def PM10_def)
  moreover have "inside 200 (155, 254, 101, 150)"
    by (simp add: inside_def)
  ultimately have "usAqiFromConcentration (Num (Fin 200)) ''pm10''
      = Num (Fin (of_int (math_round (affine64 (155, 254, 101, 150) 200))))"
    by (rule usAqi_row)
  also have "\<dots> = Num (Fin 123)"
    by (simp only: round_pm10_200) simp
  finally show ?thesis .
qed

lemma usAqi_pm10_300:
  "usAqiFromConcentration (Num (Fin 300)) ''pm10'' = Num (Fin 173)"
proof -
  have "(255, 354, 151, 200) \<in> set (table_for ''pm10'')"
    by (simp add: table_for_def PM10_def)
  moreover have "inside 300 (255, 354, 151, 200)"
    by (simp add: inside_def)
  ultimately have "usAqiFromConcentration (Num (Fin 300)) ''pm10''
      = Num (Fin (of_int (math_round (affine64 (255, 354, 151, 200) 300))))"
    by (rule usAqi_row)
  also have "\<dots> = Num (Fin 173)"
    by (simp only: round_pm10_300) simp
  finally show ?thesis .
qed

lemma usAqi_pm10_1674:
  "usAqiFromConcentration (Num (Fin (1674 / 100))) ''pm10'' = Num (Fin 15)"
proof -
  have "(0, 54, 0, 50) \<in> set (table_for ''pm10'')"
    by (simp add: table_for_def PM10_def)
  moreover have "inside (1674 / 100) (0, 54, 0, 50)"
    by (simp add: inside_def)
  ultimately have "usAqiFromConcentration (Num (Fin (1674 / 100))) ''pm10''
      = Num (Fin (of_int (math_round (affine64 (0, 54, 0, 50) (1674 / 100)))))"
    by (rule usAqi_row)
  also have "\<dots> = Num (Fin 15)"
    by (simp only: round_pm10_1674) simp
  finally show ?thesis .
qed

lemma usAqi_pm10_702:
  "usAqiFromConcentration (Num (Fin (1975954336508805 / 281474976710656))) ''pm10'' = Num (Fin 7)"
proof -
  have "(0, 54, 0, 50) \<in> set (table_for ''pm10'')"
    by (simp add: table_for_def PM10_def)
  moreover have "inside (1975954336508805 / 281474976710656) (0, 54, 0, 50)"
    by (simp add: inside_def)
  ultimately have "usAqiFromConcentration (Num (Fin (1975954336508805 / 281474976710656))) ''pm10''
      = Num (Fin (of_int (math_round (affine64 (0, 54, 0, 50) (1975954336508805 / 281474976710656)))))"
    by (rule usAqi_row)
  also have "\<dots> = Num (Fin 7)"
    by (simp only: round_pm10_702) simp
  finally show ?thesis .
qed

text \<open>
  C4, as the program has it. A finite concentration inside a row \<open>[C_low, C_high]\<close> of
  the table of its pollutant gets \<^verbatim>\<open>Math.round\<close> of
  \<open>(I_high - I_low) / (C_high - C_low) * (C - C_low) + I_low\<close> as double precision
  arithmetic evaluates it: a whole number within \<open>1/2 + 10\<^sup>-\<^sup>9\<close> of the exact value of
  the formula. PM2.5 of 12.0 gets 50 and PM2.5 of 12.1 gets 51; a concentration above the
  last row (PM2.5 above 500.4, PM10 above 604) gets 500; any pollutant name other than
  "pm10" selects the PM2.5 table.
\<close>

theorem usAqi_interpolates:
  "((Cl, Ch, Il, Ih) \<in> set
        [(0, 12, 0, 50), (121 / 10, 354 / 10, 51, 100), (355 / 10, 554 / 10, 101, 150),
         (555 / 10, 1504 / 10, 151, 200), (1505 / 10, 2504 / 10, 201, 300),
         (2505 / 10, 3504 / 10, 301, 400), (3505 / 10, 5004 / 10, 401, 500)] \<and>
    Cl \<le> c \<and> c \<le> Ch \<longrightarrow>
      (\<exists>n. usAqiFromConcentration (Num (Fin c)) ''pm25'' = Num (Fin (of_int n)) \<and>
           n = math_round (affine64 (Cl, Ch, Il, Ih) c) \<and>
           \<bar>of_int n - ((Ih - Il) / (Ch - Cl) * (c - Cl) + Il)\<bar> \<le> 1 / 2 + 1 / 10 ^ 9)) \<and>
   ((Cl, Ch, Il, Ih) \<in> set
        [(0, 54, 0, 50), (55, 154, 51, 100), (155, 254, 101, 150), (255, 354, 151, 200),
         (355, 424, 201, 300), (425, 504, 301, 400), (505, 604, 401, 500)] \<and>
    Cl \<le> c \<and> c \<le> Ch \<longrightarrow>
      (\<exists>n. usAqiFromConcentration (Num (Fin c)) ''pm10'' = Num (Fin (of_int n)) \<and>
           n = math_round (affine64 (Cl, Ch, Il, Ih) c) \<and>
           \<bar>of_int n - ((Ih - Il) / (Ch - Cl) * (c - Cl) + Il)\<bar> \<le> 1 / 2 + 1 / 10 ^ 9)) \<and>
   (p \<noteq> ''pm10'' \<longrightarrow> usAqiFromConcentration v p = usAqiFromConcentration v ''pm25'') \<and>
   usAqiFromConcentration (Num (Fin 12)) ''pm25'' = Num (Fin 50) \<and>
   usAqiFromConcentration (Num (Fin (121 / 10))) ''pm25'' = Num (Fin 51) \<and>
   (5004 / 10 < c \<longrightarrow> usAqiFromConcentration (Num (Fin c)) ''pm25'' = Num (Fin 500)) \<and>
   (604 < c \<longrightarrow> usAqiFromConcentration (Num (Fin c)) ''pm10'' = Num (Fin 500))"
proof (intro conjI impI)
  assume h: "(Cl, Ch, Il, Ih) \<in> set
        [(0, 12, 0, 50), (121 / 10, 354 / 10, 51, 100), (355 / 10, 554 / 10, 101, 150),
         (555 / 10, 1504 / 10, 151, 200), (1505 / 10, 2504 / 10, 201, 300),
         (2505 / 10, 3504 / 10, 301, 400), (3505 / 10, 5004 / 10, 401, 500)] \<and>
    Cl \<le> c \<and> c \<le> Ch"
  then have "(Cl, Ch, Il, Ih) \<in> set (table_for ''pm25'')"
    by (simp only: table_for_def PM25_def) simp
  moreover have "inside c (Cl, Ch, Il, Ih)"
    using h by (simp add: inside_def)
  ultimately show "\<exists>n. usAqiFromConcentration (Num (Fin c)) ''pm25'' = Num (Fin (of_int n)) \<and>
           n = math_round (affine64 (Cl, Ch, Il, Ih) c) \<and>
           \<bar>of_int n - ((Ih - Il) / (Ch - Cl) * (c - Cl) + Il)\<bar> \<le> 1 / 2 + 1 / 10 ^ 9"
    using usAqi_row_close [of "(Cl, Ch, Il, Ih)" "''pm25''" c] by (simp add: affine_def)
next
  assume h: "(Cl, Ch, Il, Ih) \<in> set
        [(0, 54, 0, 50), (55, 154, 51, 100), (155, 254, 101, 150), (255, 354, 151, 200),
         (355, 424, 201, 300), (425, 504, 301, 400), (505, 604, 401, 500)] \<and>
    Cl \<le> c \<and> c \<le> Ch"
  then have "(Cl, Ch, Il, Ih) \<in> set (table_for ''pm10'')"
    by (simp only: table_for_def PM10_def) simp
  moreover have "inside c (Cl, Ch, Il, Ih)"
    using h by (simp add: inside_def)
  ultimately show "\<exists>n. usAqiFromConcentration (Num (Fin c)) ''pm10'' = Num (Fin (of_int n)) \<and>
           n = math_round (affine64 (Cl, Ch, Il, Ih) c) \<and>
           \<bar>of_int n - ((Ih - Il) / (Ch - Cl) * (c - Cl) + Il)\<bar> \<le> 1 / 2 + 1 / 10 ^ 9"
    using usAqi_row_close [of "(Cl, Ch, Il, Ih)" "''pm10''" c] by (simp add: affine_def)
next
  assume "p \<noteq> ''pm10''"
  then have "table_for p = table_for ''pm25''"
    by (simp add: table_for_def)
  then show "usAqiFromConcentration v p = usAqiFromConcentration v ''pm25''"
    by (simp only: usAqiFromConcentration_def)
next
  show "usAqiFromConcentration (Num (Fin 12)) ''pm25'' = Num (Fin 50)"
    by (rule usAqi_pm25_12)
next
  show "usAqiFromConcentration (Num (Fin (121 / 10))) ''pm25'' = Num (Fin 51)"
    by (rule usAqi_pm25_121)
next
  assume "5004 / 10 < c"
  then show "usAqiFromConcentration (Num (Fin c)) ''pm25'' = Num (Fin 500)"
    by (simp add: usAqi_finite table_for_def scan_table_miss above_top_pm25)
next
  assume "604 < c"
  then show "usAqiFromConcentration (Num (Fin c)) ''pm10'' = Num (Fin 500)"
    by (simp add: usAqi_finite table_for_def scan_table_miss above_top_pm10)
qed

theorem usAqi_interpolates_witness:
  "(155, 254, 101, 150) \<in> set
        [(0, 54, 0, 50), (55, 154, 51, 100), (155, 254, 101, 150), (255, 354, 151, 200),
         (355, 424, 201, 300), (425, 504, 301, 400), (505, 604, 401, 500 :: rat)] \<and>
   (155 :: rat) \<le> 200 \<and> (200 :: rat) \<le> 254 \<and>
   (\<exists>n. usAqiFromConcentration (Num (Fin 200)) ''pm10'' = Num (Fin (of_int n)) \<and>
        n = 123 \<and>
        \<bar>of_int n - ((150 - 101) / (254 - 155) * (200 - 155) + 101 :: rat)\<bar> \<le> 1 / 2 + 1 / 10 ^ 9) \<and>
   ''pm2_5'' \<noteq> ''pm10'' \<and>
   usAqiFromConcentration (Num (Fin 10)) ''pm2_5'' = Num (Fin 42) \<and>
   (5004 / 10 :: rat) < 600 \<and> usAqiFromConcentration (Num (Fin 600)) ''pm25'' = Num (Fin 500) \<and>
   (604 :: rat) < 605 \<and> usAqiFromConcentration (Num (Fin 605)) ''pm10'' = Num (Fin 500)"
  using usAqi_interpolates [of 155 254 101 150 200 "''pm2_5''" "Num (Fin 10)"]
    usAqi_interpolates [of 0 0 0 0 600 "''pm25''" Null]
    usAqi_interpolates [of 0 0 0 0 605 "''pm25''" Null]
  by (simp add: round_pm10_200 usAqi_pm25_10)

text \<open>
  The rounding of the exact value is not always what the program returns. PM10 of 16.74
  has the exact value 15.5, which rounds to 16, and the program returns 15; the double
  nearest to 7.02 has an exact value just below 6.5, which rounds to 6, and the program
  returns 7.
\<close>

theorem usAqi_rounding_counterexample:
  "usAqiFromConcentration (Num (Fin (1674 / 100))) ''pm10'' = Num (Fin 15) \<and>
   math_round ((50 - 0) / (54 - 0) * (1674 / 100 - 0) + 0) = 16 \<and>
   usAqiFromConcentration (Num (Fin (1975954336508805 / 281474976710656))) ''pm10''
     = Num (Fin 7) \<and>
   math_round ((50 - 0) / (54 - 0) * (1975954336508805 / 281474976710656 - 0) + 0) = 6"
  by (intro conjI usAqi_pm10_1674 usAqi_pm10_702) (simp_all add: math_round_def floor_eq_iff)



text \<open>The index does not decrease from a concentration that lies inside a row, or above
  the last one, to any larger concentration.\<close>

lemma usAqi_monotone_from_range:
  assumes "\<exists>b \<in> set (table_for p). inside c b" and "c \<le> c'"
  shows "fin_of (usAqiFromConcentration (Num (Fin c)) p)
     \<le> fin_of (usAqiFromConcentration (Num (Fin c')) p)"
  using assms scan_table_mono [OF ascending_table_for] by (auto simp: usAqi_finite)

lemma usAqi_monotone_above_top:
  assumes "list_all (\<lambda>b. hi b < c) (table_for p)" and "c \<le> c'"
  shows "usAqiFromConcentration (Num (Fin c)) p = Num (Fin 500) \<and>
     usAqiFromConcentration (Num (Fin c')) p = Num (Fin 500)"
proof -
  have "list_all (\<lambda>b. \<not> inside c b) (table_for p)" "list_all (\<lambda>b. \<not> inside c' b) (table_for p)"
    using assms by (auto simp: list_all_iff inside_def)
  then show ?thesis
    by (simp add: usAqi_finite scan_table_miss)
qed

text \<open>
  C5. The index is not monotone in the concentration: from a concentration in a gap
  between two rows to the start of the next row it drops. PM10 of 54.5 gets 500 and PM10
  of 55 gets 51; PM2.5 of 12.05 gets 500 and PM2.5 of 12.1 gets 51.
\<close>

theorem usAqi_gap_breaks_monotonicity:
  "usAqiFromConcentration (Num (Fin (545 / 10))) ''pm10'' = Num (Fin 500) \<and>
   usAqiFromConcentration (Num (Fin 55)) ''pm10'' = Num (Fin 51) \<and>
   usAqiFromConcentration (Num (Fin (1205 / 100))) ''pm25'' = Num (Fin 500) \<and>
   usAqiFromConcentration (Num (Fin (121 / 10))) ''pm25'' = Num (Fin 51)"
  by (intro conjI usAqi_pm10_55 usAqi_pm25_121)
    (simp_all add: usAqi_finite table_for_def PM10_def PM25_def)

section \<open>Properties of the category\<close>

text \<open>
  C6. A label that comes with the index is returned verbatim. Without one the category
  follows from the number: up to 50 "Good", up to 100 "Moderate", up to 150 "Unhealthy for
  Sensitive Groups", up to 200 "Unhealthy", up to 300 "Very Unhealthy", above 300
  "Hazardous". An index that is absent or not finite, with no label, gives "Unknown".
\<close>

theorem category_mapping:
  "(s \<noteq> [] \<longrightarrow> aqiCategory (Some s) v = s) \<and>
   aqiCategory None v = aqiCategoryFromNumber v \<and>
   aqiCategoryFromNumber (Num (Fin x)) =
     (if x \<le> 50 then ''Good''
      else if x \<le> 100 then ''Moderate''
      else if x \<le> 150 then ''Unhealthy for Sensitive Groups''
      else if x \<le> 200 then ''Unhealthy''
      else if x \<le> 300 then ''Very Unhealthy''
      else ''Hazardous'') \<and>
   (\<not> isFinite v \<longrightarrow>
      aqiCategoryFromNumber v = ''Unknown'' \<and> aqiCategory None v = ''Unknown'') \<and>
   aqiCategoryFromNumber (Num (Fin 50)) = ''Good'' \<and>
   aqiCategoryFromNumber (Num (Fin 51)) = ''Moderate'' \<and>
   aqiCategoryFromNumber (Num (Fin 300)) = ''Very Unhealthy'' \<and>
   aqiCategoryFromNumber (Num (Fin 301)) = ''Hazardous''"
  by (simp add: aqiCategory_def aqiCategoryFromNumber_def js_le_def)

theorem category_mapping_witness:
  "''Moderate'' \<noteq> [] \<and> aqiCategory (Some ''Moderate'') (Num (Fin 180)) = ''Moderate'' \<and>
   \<not> isFinite Null \<and> aqiCategory None Null = ''Unknown'' \<and>
   aqiCategory None (Num (Fin 180)) = ''Unhealthy''"
  using category_mapping [of "''Moderate''" "Num (Fin 180)" 180] category_mapping [of "''x''" Null 0]
  by simp

section \<open>Properties of the nearest hour search\<close>

lemma findNearestAqi_index:
  "findNearestAqi aqJson targetISO =
     (case nearest_index (array_of aqJson time) (array_of aqJson us_aqi) targetISO of
        Some i \<Rightarrow> \<lparr>n_aqi = at_index (array_of aqJson us_aqi) i,
                   n_category = aqiCategoryFromNumber (at_index (array_of aqJson us_aqi) i)\<rparr>
      | None \<Rightarrow> \<lparr>n_aqi = Null, n_category = ''Unknown''\<rparr>)"
  by (simp add: findNearestAqi_def nearest_index_def Let_def split: option.splits)

lemma findNearestAqi_labelled_index:
  "findNearestAqi_labelled aqJson targetISO =
     (case nearest_index (array_of aqJson time) (array_of aqJson us_aqi) targetISO of
        Some i \<Rightarrow> \<lparr>n_aqi = at_index (array_of aqJson us_aqi) i,
                   n_category = aqiCategory (label_at (array_of aqJson epa_health_concern) i)
                     (at_index (array_of aqJson us_aqi) i)\<rparr>
      | None \<Rightarrow> \<lparr>n_aqi = Null, n_category = ''Unknown''\<rparr>)"
  by (simp add: findNearestAqi_labelled_def nearest_index_def Let_def split: option.splits)

lemma findIndex_from_position:
  "findIndex_from P xs k =
     (if list_ex P xs then k + int (length (takeWhile (\<lambda>x. \<not> P x) xs)) else - 1)"
  by (induction xs arbitrary: k) simp_all

lemma findIndex_position:
  "findIndex (\<lambda>t. startsWith t target) ts =
     (case target_position_spec ts target of Some k \<Rightarrow> int k | None \<Rightarrow> - 1)"
  by (simp add: findIndex_def findIndex_from_position target_position_spec_def startsWith_def)

lemma takeWhile_stops: "list_ex P xs \<Longrightarrow> length (takeWhile (\<lambda>x. \<not> P x) xs) < length xs"
  by (induction xs) auto

lemma target_position_less:
  "target_position_spec ts target = Some k \<Longrightarrow> k < length ts"
  by (auto simp: target_position_spec_def takeWhile_stops split: if_splits)

lemma hasVal_in_range:
  "0 \<le> i \<Longrightarrow> i < int (length arr) \<Longrightarrow> hasVal arr i = usable (arr ! nat i)"
  by (simp add: hasVal_def at_index_def usable_def)

lemma backward_find:
  "i < int (length arr) \<Longrightarrow>
     map_option (at_index arr) (backward arr i) = find usable (rev (take (nat (i + 1)) arr))"
proof (induction arr i rule: backward.induct)
  case (1 aqiArr i)
  show ?case
  proof (cases "i \<ge> 0")
    case False
    then show ?thesis by (simp add: backward.simps [of aqiArr i])
  next
    case True
    with "1.prems" have n: "nat i < length aqiArr" by simp
    have t: "take (nat (i + 1)) aqiArr = take (nat i) aqiArr @ [aqiArr ! nat i]"
      using True n by (simp add: nat_add_distrib take_Suc_conv_app_nth)
    show ?thesis
    proof (cases "hasVal aqiArr i")
      case h: True
      then show ?thesis
        using True "1.prems" hasVal_in_range [of i aqiArr]
        by (simp add: backward.simps [of aqiArr i] t at_index_def)
    next
      case h: False
      have "map_option (at_index aqiArr) (backward aqiArr (i - 1))
          = find usable (rev (take (nat (i - 1 + 1)) aqiArr))"
        using "1.IH" [OF True h] "1.prems" by simp
      then show ?thesis
        using True h "1.prems" hasVal_in_range [of i aqiArr]
        by (simp add: backward.simps [of aqiArr i] t)
    qed
  qed
qed

lemma forward_find:
  "0 \<le> i \<Longrightarrow> n = int (length arr) \<Longrightarrow>
     map_option (at_index arr) (forward arr n i) = find usable (drop (nat i) arr)"
proof (induction arr n i rule: forward.induct)
  case (1 aqiArr n i)
  show ?case
  proof (cases "i < n")
    case False
    with "1.prems" show ?thesis by (simp add: forward.simps [of aqiArr _ i])
  next
    case True
    with "1.prems" have n: "nat i < length aqiArr" by simp
    have d: "drop (nat i) aqiArr = aqiArr ! nat i # drop (nat (i + 1)) aqiArr"
      using "1.prems" n by (simp add: nat_add_distrib Cons_nth_drop_Suc)
    show ?thesis
    proof (cases "hasVal aqiArr i")
      case h: True
      then show ?thesis
        using True "1.prems" hasVal_in_range [of i aqiArr]
        by (simp add: forward.simps [of aqiArr _ i] d at_index_def)
    next
      case h: False
      have "map_option (at_index aqiArr) (forward aqiArr n (i + 1))
          = find usable (drop (nat (i + 1)) aqiArr)"
        using "1.IH" [OF True h] "1.prems" by simp
      then show ?thesis
        using True h "1.prems" hasVal_in_range [of i aqiArr]
        by (simp add: forward.simps [of aqiArr _ i] d)
    qed
  qed
qed

lemma nearest_index_value:
  assumes "length aqis = length ts"
  shows "map_option (at_index aqis) (nearest_index ts aqis target)
     = nearest_value_spec ts aqis target"
proof (cases "target_position_spec ts target")
  case None
  then have e: "findIndex (\<lambda>t. startsWith t target) ts = - 1"
    by (simp add: findIndex_position)
  have "backward aqis (- 2) = None"
    by (simp add: backward.simps [of aqis "- 2"])
  moreover have "map_option (at_index aqis) (forward aqis (int (length ts)) 0)
      = find usable aqis"
    using forward_find [of 0 "int (length ts)" aqis] assms by simp
  ultimately show ?thesis
    using None by (simp add: nearest_index_def nearest_value_spec_def e hasVal_def)
next
  case (Some k)
  then have e: "findIndex (\<lambda>t. startsWith t target) ts = int k"
    by (simp add: findIndex_position)
  have k: "k < length aqis"
    using Some assms by (simp add: target_position_less)
  have h: "hasVal aqis (int k) = usable (aqis ! k)"
    using hasVal_in_range [of "int k" aqis] k by simp
  have b: "map_option (at_index aqis) (backward aqis (int k - 1))
      = find usable (rev (take k aqis))"
    using backward_find [of "int k - 1" aqis] k by simp
  have f: "map_option (at_index aqis) (forward aqis (int (length ts)) (int k + 1))
      = find usable (drop (Suc k) aqis)"
    using forward_find [of "int k + 1" "int (length ts)" aqis] assms
    by (simp add: nat_add_distrib)
  show ?thesis
  proof (cases "usable (aqis ! k)")
    case True
    then show ?thesis
      using Some k h by (simp add: nearest_index_def nearest_value_spec_def e at_index_def)
  next
    case False
    then show ?thesis
      using Some k h b f
      by (auto simp: nearest_index_def nearest_value_spec_def e split: option.splits)
  qed
qed

text \<open>An index that a loop returns holds a usable value, so the result is a finite number
  or \<open>null\<close>.\<close>

lemma backward_hasVal: "backward arr i = Some k \<Longrightarrow> hasVal arr k"
proof (induction arr i rule: backward.induct)
  case (1 aqiArr i)
  then show ?case
    by (simp add: backward.simps [of aqiArr i] split: if_splits)
qed

lemma forward_hasVal: "forward arr n i = Some k \<Longrightarrow> hasVal arr k"
proof (induction arr n i rule: forward.induct)
  case (1 aqiArr n i)
  then show ?case
    by (simp add: forward.simps [of aqiArr n i] split: if_splits)
qed

lemma findNearestAqi_finite_or_null:
  "isFinite (n_aqi (findNearestAqi aqJson targetISO)) \<or>
   findNearestAqi aqJson targetISO = \<lparr>n_aqi = Null, n_category = ''Unknown''\<rparr>"
  by (auto simp: findNearestAqi_def Let_def hasVal_def split: option.splits
      dest!: backward_hasVal forward_hasVal)

lemma backward_none: "\<not> list_ex usable arr \<Longrightarrow> backward arr i = None"
proof (induction arr i rule: backward.induct)
  case (1 aqiArr i)
  then have "\<not> hasVal aqiArr i"
    by (auto simp: hasVal_def at_index_def usable_def list_ex_iff)
  with 1 show ?case
    by (simp add: backward.simps [of aqiArr i])
qed

lemma forward_none: "\<not> list_ex usable arr \<Longrightarrow> forward arr n i = None"
proof (induction arr n i rule: forward.induct)
  case (1 aqiArr n i)
  then have "\<not> hasVal aqiArr i"
    by (auto simp: hasVal_def at_index_def usable_def list_ex_iff)
  with 1 show ?case
    by (simp add: forward.simps [of aqiArr n i])
qed

lemma nearest_index_none: "\<not> list_ex usable aqis \<Longrightarrow> nearest_index ts aqis target = None"
  by (auto simp: nearest_index_def Let_def backward_none forward_none hasVal_def at_index_def
      usable_def list_ex_iff)

text \<open>
  C3. For a series whose timestamp and index arrays have the same length,
  \<^verbatim>\<open>findNearestAqi\<close> returns the value at the first timestamp starting with the target
  prefix when that value is usable; otherwise the first usable value going backward to
  the start; otherwise the first usable value going forward from the position after the
  target to the end (from position 0 when no timestamp matches). When no value of the
  series is usable it returns an absent index with category "Unknown"; it is a total
  function, so it never raises. A usable value one position before an unusable target is
  returned whatever follows the target.
\<close>

theorem nearest_hour_fallback:
  fixes aqJson :: json and target :: string
  defines "T \<equiv> array_of aqJson time" and "A \<equiv> array_of aqJson us_aqi"
  shows
  "(length A = length T \<longrightarrow>
      findNearestAqi aqJson target =
        (case nearest_value_spec T A target of
           Some v \<Rightarrow> \<lparr>n_aqi = v, n_category = aqiCategoryFromNumber v\<rparr>
         | None \<Rightarrow> \<lparr>n_aqi = Null, n_category = ''Unknown''\<rparr>) \<and>
      n_aqi (findNearestAqi_labelled aqJson target) =
        (case nearest_value_spec T A target of Some v \<Rightarrow> v | None \<Rightarrow> Null)) \<and>
   (\<not> list_ex usable A \<longrightarrow>
      findNearestAqi aqJson target = \<lparr>n_aqi = Null, n_category = ''Unknown''\<rparr> \<and>
      findNearestAqi_labelled aqJson target = \<lparr>n_aqi = Null, n_category = ''Unknown''\<rparr>) \<and>
   (length A = length T \<and> target_position_spec T target = Some (Suc k) \<and>
    \<not> usable (A ! Suc k) \<and> usable (A ! k) \<longrightarrow>
      n_aqi (findNearestAqi aqJson target) = A ! k \<and>
      n_aqi (findNearestAqi_labelled aqJson target) = A ! k)"
proof (intro conjI impI)
  assume len: "length A = length T"
  have v: "map_option (at_index A) (nearest_index T A target) = nearest_value_spec T A target"
    using len by (rule nearest_index_value)
  show "findNearestAqi aqJson target =
        (case nearest_value_spec T A target of
           Some v \<Rightarrow> \<lparr>n_aqi = v, n_category = aqiCategoryFromNumber v\<rparr>
         | None \<Rightarrow> \<lparr>n_aqi = Null, n_category = ''Unknown''\<rparr>)"
    using v by (auto simp: findNearestAqi_index T_def A_def split: option.splits)
  show "n_aqi (findNearestAqi_labelled aqJson target) =
        (case nearest_value_spec T A target of Some v \<Rightarrow> v | None \<Rightarrow> Null)"
    using v by (auto simp: findNearestAqi_labelled_index T_def A_def split: option.splits)
next
  assume "\<not> list_ex usable A"
  then have n: "nearest_index T A target = None"
    by (rule nearest_index_none)
  show "findNearestAqi aqJson target = \<lparr>n_aqi = Null, n_category = ''Unknown''\<rparr>"
    using n by (simp add: findNearestAqi_index T_def A_def)
  show "findNearestAqi_labelled aqJson target = \<lparr>n_aqi = Null, n_category = ''Unknown''\<rparr>"
    using n by (simp add: findNearestAqi_labelled_index T_def A_def)
next
  assume h: "length A = length T \<and> target_position_spec T target = Some (Suc k) \<and>
    \<not> usable (A ! Suc k) \<and> usable (A ! k)"
  then have "Suc k < length A"
    using target_position_less [of T target "Suc k"] by simp
  then have "take (Suc k) A = take k A @ [A ! k]"
    by (simp add: take_Suc_conv_app_nth)
  then have "nearest_value_spec T A target = Some (A ! k)"
    using h by (simp add: nearest_value_spec_def)
  moreover have "map_option (at_index A) (nearest_index T A target) = nearest_value_spec T A target"
    using h by (intro nearest_index_value) simp
  ultimately have i: "map_option (at_index A) (nearest_index T A target) = Some (A ! k)"
    by simp
  show "n_aqi (findNearestAqi aqJson target) = A ! k"
    using i by (auto simp: findNearestAqi_index T_def A_def split: option.splits)
  show "n_aqi (findNearestAqi_labelled aqJson target) = A ! k"
    using i by (auto simp: findNearestAqi_labelled_index T_def A_def split: option.splits)
qed

theorem nearest_hour_fallback_witness:
  "findNearestAqi
     (series [''2024-05-01T05:00'', ''2024-05-01T06:00'', ''2024-05-01T07:00'']
        [Num (Fin 40), Null, Num (Fin 70)]) ''2024-05-01T06:00''
     = \<lparr>n_aqi = Num (Fin 40), n_category = ''Good''\<rparr> \<and>
   findNearestAqi
     (series [''2024-05-01T05:00'', ''2024-05-01T06:00'', ''2024-05-01T07:00'']
        [Null, Num NaN, Num (Fin 70)]) ''2024-05-01T06:00''
     = \<lparr>n_aqi = Num (Fin 70), n_category = ''Moderate''\<rparr> \<and>
   findNearestAqi
     (series [''2024-05-01T05:00'', ''2024-05-01T06:00'', ''2024-05-01T07:00'']
        [Null, Null, Undefined]) ''2024-05-01T06:00''
     = \<lparr>n_aqi = Null, n_category = ''Unknown''\<rparr>"
  using nearest_hour_fallback [of "series [''2024-05-01T05:00'', ''2024-05-01T06:00'', ''2024-05-01T07:00'']
        [Num (Fin 40), Null, Num (Fin 70)]" "''2024-05-01T06:00''" 0]
    nearest_hour_fallback [of "series [''2024-05-01T05:00'', ''2024-05-01T06:00'', ''2024-05-01T07:00'']
        [Null, Num NaN, Num (Fin 70)]" "''2024-05-01T06:00''" 0]
    nearest_hour_fallback [of "series [''2024-05-01T05:00'', ''2024-05-01T06:00'', ''2024-05-01T07:00'']
        [Null, Null, Undefined]" "''2024-05-01T06:00''" 0]
  by (simp add: series_def array_of_def nearest_value_spec_def target_position_spec_def usable_def
      aqiCategoryFromNumber_def js_le_def)

section \<open>Properties of the index from the particulate series\<close>

lemma pickNearest_finite_or_null:
  "isFinite (pickNearest jExact arr) \<or> pickNearest jExact arr = Null"
  by (auto simp: pickNearest_def hasVal_def split: option.splits
      dest!: backward_hasVal forward_hasVal)

lemma usAqi_isFinite: "isFinite (usAqiFromConcentration v p) = isFinite v"
proof (cases v rule: isFinite.cases)
  case (1 x)
  obtain n where "scan_table x (table_for p) = Num (Fin (of_int n))"
    using scan_table_range [OF ascending_table_for] by blast
  with 1 show ?thesis by (simp add: usAqi_finite)
qed (simp_all add: usAqiFromConcentration_def)

lemma usAqi_absent: "\<not> isFinite v \<Longrightarrow> usAqiFromConcentration v p = Null"
  by (cases v rule: isFinite.cases) (simp_all add: usAqiFromConcentration_def)

text \<open>
  C7. When both concentrations give an index, the index chosen is the one from PM2.5. The
  one from PM10 is chosen only when the PM2.5 concentration is not a finite number, and
  the index chosen is absent exactly when neither concentration is a finite number.
\<close>

theorem pm25_preferred:
  "(isFinite (usAqiFromConcentration pm25_val ''pm25'') \<and>
    isFinite (usAqiFromConcentration pm10_val ''pm10'') \<longrightarrow>
      aqiFromPm pm25_val pm10_val = usAqiFromConcentration pm25_val ''pm25'') \<and>
   (isFinite pm25_val \<longrightarrow> aqiFromPm pm25_val pm10_val = usAqiFromConcentration pm25_val ''pm25'') \<and>
   (\<not> isFinite pm25_val \<longrightarrow> aqiFromPm pm25_val pm10_val = usAqiFromConcentration pm10_val ''pm10'') \<and>
   (\<not> isFinite (aqiFromPm pm25_val pm10_val)) = (\<not> isFinite pm25_val \<and> \<not> isFinite pm10_val) \<and>
   (aqiFromPm pm25_val pm10_val = Null) = (\<not> isFinite pm25_val \<and> \<not> isFinite pm10_val)"
proof -
  have n: "(usAqiFromConcentration pm10_val ''pm10'' = Null) = (\<not> isFinite pm10_val)"
    using usAqi_isFinite [of pm10_val "''pm10''"] usAqi_absent [of pm10_val "''pm10''"] by auto
  have m: "isFinite pm25_val \<Longrightarrow> usAqiFromConcentration pm25_val ''pm25'' \<noteq> Null"
    using usAqi_isFinite [of pm25_val "''pm25''"] by auto
  show ?thesis
    using n m by (auto simp: aqiFromPm_def Let_def usAqi_isFinite)
qed

theorem pm25_preferred_witness:
  "isFinite (Num (Fin 20)) \<and>
   aqiFromPm (Num (Fin 20)) (Num (Fin 300)) = Num (Fin 68) \<and>
   \<not> isFinite Null \<and>
   aqiFromPm Null (Num (Fin 300)) = Num (Fin 173) \<and>
   aqiFromPm Null Undefined = Null"
  using pm25_preferred [of "Num (Fin 20)" "Num (Fin 300)"]
    pm25_preferred [of Null "Num (Fin 300)"]
    pm25_preferred [of Null Undefined]
  by (simp add: usAqi_pm25_20 usAqi_pm10_300 usAqi_absent)

section \<open>Properties of the handlers\<close>

text \<open>The handler of \<^verbatim>\<open>api/run-verdict.js\<close> fails, with nothing posted, whenever one of
  the upstream responses is not a success.\<close>

lemma handler_fails_fast:
  assumes "weather env = Some wRes" and "air env = Some aqRes" and "\<not> ok wRes \<or> \<not> ok aqRes"
  shows "handler env = (Failed MissingTopic, []) \<or>
         handler env = (Failed (WeatherFetchFailed (status wRes)), []) \<or>
         handler env = (Failed (AqFetchFailed (status aqRes)), [])"
  using assms by (auto simp: handler_def settled_both_def Let_def)

text \<open>
  C8. With a weather response that is not a success, the handler without the check still
  builds a line from the missing data ("Safe to run", temperature, humidity and wind
  \<open>NA\<close>), posts it and replies with status 200, where the handler of
  \<^verbatim>\<open>api/run-verdict.js\<close> fails with the weather error and posts nothing.
\<close>

theorem handler_unchecked_proceeds:
  "weather weather_down = Some \<lparr>ok = False, status = 500, body = Some None\<rparr> \<and>
   handler_unchecked weather_down =
     (Sent \<lparr>m_verdict = \<lparr>icon = Green, text_str = ''Safe to run''\<rparr>, m_tempC = NA, m_rh = NA,
        m_windKmh = NA, m_aqi = Fixed 40, m_aqiCat = None\<rparr>,
      [\<lparr>m_verdict = \<lparr>icon = Green, text_str = ''Safe to run''\<rparr>, m_tempC = NA, m_rh = NA,
        m_windKmh = NA, m_aqi = Fixed 40, m_aqiCat = None\<rparr>]) \<and>
   handler weather_down = (Failed (WeatherFetchFailed 500), [])"
  by (simp add: weather_down_def handler_unchecked_def handler_def settled_both_def
      topic_missing_def array_of_def findIndex_def startsWith_def series_at_def at_index_def
      verdictForAsthma_bare_def js_ge_def push_def Let_def)

end
